theory Spec2Isabelle
  imports Complex_Main "HOL-Library.AList"
begin

section \<open>Strings\<close>

text \<open>
  The classifier of \<^verbatim>\<open>trained_models/standalone_ml.py\<close> works on Python \<^verbatim>\<open>str\<close>
  values. A string is modelled as a \<^typ>\<open>string\<close> whose characters are the code points
  below 256; on that range \<^verbatim>\<open>str.lower\<close> keeps the length of the text, and the
  whitespace class used by \<^verbatim>\<open>str.split\<close>, \<^verbatim>\<open>str.strip\<close> and the pattern
  \<^verbatim>\<open>\s\<close> is the set written out in \<open>isspace\<close>.
\<close>

definition isspace :: "char \<Rightarrow> bool" where
  "isspace c \<longleftrightarrow> c \<in> set [CHR 0x09, CHR 0x0A, CHR 0x0B, CHR 0x0C, CHR 0x0D,
     CHR 0x1C, CHR 0x1D, CHR 0x1E, CHR 0x1F, CHR 0x20, CHR 0x85, CHR 0xA0]"

definition is_ascii_upper :: "char \<Rightarrow> bool" where
  "is_ascii_upper c \<longleftrightarrow> (65::nat) \<le> of_char c \<and> of_char c \<le> (90::nat)"

definition is_ascii_lower :: "char \<Rightarrow> bool" where
  "is_ascii_lower c \<longleftrightarrow> (97::nat) \<le> of_char c \<and> of_char c \<le> (122::nat)"

definition is_ascii_digit :: "char \<Rightarrow> bool" where
  "is_ascii_digit c \<longleftrightarrow> (48::nat) \<le> of_char c \<and> of_char c \<le> (57::nat)"

text \<open>\<^verbatim>\<open>str.lower\<close>, one character at a time: the letters A to Z, and the upper-case
  letters of the range 192 to 222 (the multiplication sign 215 apart), move up by 32.\<close>

definition lower_char :: "char \<Rightarrow> char" where
  "lower_char c =
     (let n = of_char c :: nat
      in if (65 \<le> n \<and> n \<le> 90) \<or> (192 \<le> n \<and> n \<le> 222 \<and> n \<noteq> 215)
         then char_of (n + 32) else c)"

definition lower :: "string \<Rightarrow> string" where
  "lower text = map lower_char text"

text \<open>\<^verbatim>\<open>needle in hay\<close> on strings: \<open>needle\<close> occurs in \<open>hay\<close> as a contiguous block.\<close>

fun startswith :: "string \<Rightarrow> string \<Rightarrow> bool" where
  "startswith hay [] = True"
| "startswith [] (p # ps) = False"
| "startswith (c # cs) (p # ps) = (c = p \<and> startswith cs ps)"

fun contains :: "string \<Rightarrow> string \<Rightarrow> bool" where
  "contains [] needle = (needle = [])"
| "contains (c # cs) needle = (startswith (c # cs) needle \<or> contains cs needle)"

text \<open>\<^verbatim>\<open>any(word in query_lower for word in [...])\<close>\<close>

definition any_in :: "string list \<Rightarrow> string \<Rightarrow> bool" where
  "any_in ws query_lower = list_ex (\<lambda>word. contains query_lower word) ws"

text \<open>\<^verbatim>\<open>str.split()\<close> without arguments scans the text once; a run of whitespace ends
  the current token, and empty tokens are never produced.\<close>

fun split_scan :: "string \<Rightarrow> string \<Rightarrow> string list" where
  "split_scan cur [] = (if cur = [] then [] else [cur])"
| "split_scan cur (c # cs) =
     (if isspace c then (if cur = [] then split_scan [] cs else cur # split_scan [] cs)
      else split_scan (cur @ [c]) cs)"

definition split_ws :: "string \<Rightarrow> string list" where
  "split_ws text = split_scan [] text"

text \<open>\<^verbatim>\<open>str.strip()\<close> and \<^verbatim>\<open>str.strip('"')\<close>\<close>

definition strip_by :: "(char \<Rightarrow> bool) \<Rightarrow> string \<Rightarrow> string" where
  "strip_by P text = rev (dropWhile P (rev (dropWhile P text)))"

definition strip :: "string \<Rightarrow> string" where
  "strip text = strip_by isspace text"

definition strip_quotes :: "string \<Rightarrow> string" where
  "strip_quotes text = strip_by (\<lambda>c. c = CHR 0x22) text"

text \<open>\<^verbatim>\<open>text.split(sep, maxsplit)\<close> for a one-character separator.\<close>

fun split_sep :: "char \<Rightarrow> nat \<Rightarrow> string \<Rightarrow> string \<Rightarrow> string list" where
  "split_sep sep n cur [] = [cur]"
| "split_sep sep n cur (c # cs) =
     (if n = 0 then [cur @ c # cs]
      else if c = sep then cur # split_sep sep (n - 1) [] cs
      else split_sep sep n (cur @ [c]) cs)"

section \<open>Word extraction\<close>

text \<open>
  \<^verbatim>\<open>
  def extract_words(self, text):
      text = re.sub(r'[^a-zA-Z0-9\s]', ' ', text.lower())
      words = [word for word in text.split() if len(word) > 2]
      return words
  \<close>
\<close>

definition re_sub_char :: "char \<Rightarrow> char" where
  "re_sub_char c =
     (if is_ascii_lower c \<or> is_ascii_upper c \<or> is_ascii_digit c \<or> isspace c then c
      else CHR '' '')"

definition extract_words :: "string \<Rightarrow> string list" where
  "extract_words text =
     (let text' = map re_sub_char (lower text)
      in filter (\<lambda>word. length word > 2) (split_ws text'))"

section \<open>Rule-based classification\<close>

text \<open>The function returns a pair of labels or \<^verbatim>\<open>(None, None)\<close>; the caller tests the
  category for truth, and every category returned by a rule is a non-empty literal.\<close>

definition rule_based_classification :: "string \<Rightarrow> string list \<Rightarrow> (string \<times> string) option" where
  "rule_based_classification query_lower words =
     (if any_in [''water'', ''tap'', ''leak'', ''plumbing'', ''pipe'', ''drainage''] query_lower then
        (if any_in [''hostel'', ''room'', ''mess''] query_lower
         then Some (''Hostel/Mess'', ''urgent'')
         else Some (''Maintenance'', ''urgent''))
      else if any_in [''electricity'', ''power'', ''light'', ''bulb'', ''electrical''] query_lower then
        (if any_in [''hostel'', ''room''] query_lower
         then Some (''Hostel/Mess'', ''urgent'')
         else Some (''Maintenance'', ''high''))
      else if any_in [''food'', ''meal'', ''mess'', ''dining'', ''kitchen'', ''quality''] query_lower
        then Some (''Hostel/Mess'', ''high'')
      else if any_in [''room'', ''furniture'', ''bed'', ''chair'', ''table''] query_lower
        then Some (''Hostel/Mess'', ''medium'')
      else if any_in [''login'', ''portal'', ''password'', ''access''] query_lower
        then Some (''Technical'', ''urgent'')
      else if any_in [''wifi'', ''internet'', ''network'', ''connection''] query_lower
        then Some (''Technical'', ''urgent'')
      else if any_in [''grade'', ''marks'', ''exam'', ''certificate'', ''attendance''] query_lower
        then Some (''Academic'', ''high'')
      else if any_in [''broken'', ''repair'', ''fix'', ''maintenance'', ''elevator'', ''lift''] query_lower
        then Some (''Maintenance'', ''urgent'')
      else None)"

section \<open>Dictionaries\<close>

text \<open>
  A Python \<^verbatim>\<open>dict\<close> iterates in insertion order, and \<^verbatim>\<open>max\<close> over it returns the
  first maximal key of that order, so a dictionary is an association list in insertion
  order: assigning to a present key keeps its place, assigning to a new key appends it.
\<close>

type_synonym 'v pydict = "(string \<times> 'v) list"

definition dict_set :: "'v pydict \<Rightarrow> string \<Rightarrow> 'v \<Rightarrow> 'v pydict" where
  "dict_set d k v = AList.update k v d"

definition dict_get :: "'v pydict \<Rightarrow> string \<Rightarrow> 'v \<Rightarrow> 'v" where
  "dict_get d k dflt = (case map_of d k of None \<Rightarrow> dflt | Some v \<Rightarrow> v)"

definition dict_keys :: "'v pydict \<Rightarrow> string list" where
  "dict_keys d = map fst d"

definition dict_values :: "'v pydict \<Rightarrow> 'v list" where
  "dict_values d = map snd d"

datatype py_error = ValueError | UnicodeEncodeError

text \<open>\<^verbatim>\<open>max(iterable, key=f)\<close> keeps the element seen first among the maximal ones, and
  raises \<^verbatim>\<open>ValueError\<close> on an empty iterable.\<close>

fun max_from :: "('a \<Rightarrow> 'b::linorder) \<Rightarrow> 'a \<Rightarrow> 'a list \<Rightarrow> 'a" where
  "max_from f best [] = best"
| "max_from f best (x # xs) = (if f best < f x then max_from f x xs else max_from f best xs)"

definition py_max :: "('a \<Rightarrow> 'b::linorder) \<Rightarrow> 'a list \<Rightarrow> py_error + 'a" where
  "py_max f xs = (case xs of [] \<Rightarrow> Inl ValueError | x # rest \<Rightarrow> Inr (max_from f x rest))"

text \<open>\<^verbatim>\<open>max(d, key=d.get)\<close>: the keys of a dictionary are distinct, so \<^verbatim>\<open>d.get\<close> of a
  key is the value stored beside it.\<close>

definition max_key :: "('v::linorder) pydict \<Rightarrow> py_error + string" where
  "max_key d = map_sum id fst (py_max snd d)"

section \<open>The service and its pattern tables\<close>

record training_sample =
  query :: string
  category :: string
  priority :: string

record service =
  models_loaded :: bool
  training_data :: "training_sample list"
  category_patterns :: "string list pydict"
  priority_patterns :: "string list pydict"

definition new_service :: service where
  "new_service = \<lparr>models_loaded = False, training_data = [],
     category_patterns = [], priority_patterns = []\<rparr>"

definition default_category_patterns :: "string list pydict" where
  "default_category_patterns =
    [(''Technical'', [''login'', ''password'', ''portal'', ''wifi'', ''internet'', ''network'',
        ''computer'', ''laptop'', ''software'', ''email'', ''lms'', ''system'']),
     (''Academic'', [''grade'', ''marks'', ''exam'', ''attendance'', ''lecture'', ''class'',
        ''assignment'', ''certificate'', ''transfer'', ''timetable'', ''professor'']),
     (''Hostel/Mess'', [''hostel'', ''room'', ''mess'', ''food'', ''meal'', ''accommodation'',
        ''furniture'', ''allotment'', ''quality'', ''dining'']),
     (''Maintenance'', [''maintenance'', ''repair'', ''broken'', ''electricity'', ''water'',
        ''tap'', ''elevator'', ''cleaning'', ''lighting'', ''conditioning''])]"

definition default_priority_patterns :: "string list pydict" where
  "default_priority_patterns =
    [(''urgent'', [''urgent'', ''emergency'', ''immediately'', ''broken'', ''not'', ''working'',
        ''critical'']),
     (''high'', [''important'', ''soon'', ''needed'', ''missing'', ''exam'', ''grade'',
        ''deteriorated'']),
     (''medium'', [''moderate'', ''normal'', ''permission'', ''competition'', ''week'']),
     (''low'', [''later'', ''minor'', ''simple'', ''routine'', ''cleaning'', ''dim''])]"

definition setup_default_patterns :: "service \<Rightarrow> service" where
  "setup_default_patterns s =
     s\<lparr>category_patterns := default_category_patterns,
       priority_patterns := default_priority_patterns\<rparr>"

subsection \<open>Loading the corpus\<close>

text \<open>
  What the loader finds at \<^verbatim>\<open>cmsdata.csv\<close>: no file (\<^verbatim>\<open>os.path.exists\<close> is false),
  a file that \<^verbatim>\<open>open\<close> or \<^verbatim>\<open>readlines\<close> fails on (any exception, caught by the
  handler of \<^verbatim>\<open>load_csv_data\<close>), or the list of lines that \<^verbatim>\<open>readlines\<close> returns.
  The loop over the lines only strips, splits and appends, so it raises nothing.
\<close>

datatype csv_file = NotFound | ReadError | Lines "string list"

definition comma_parts :: "string \<Rightarrow> string list" where
  "comma_parts line = split_sep CHR '','' 2 [] (strip line)"

definition load_line :: "training_sample list \<Rightarrow> string \<Rightarrow> training_sample list" where
  "load_line td line =
     (let parts = comma_parts line
      in if length parts \<ge> 3
         then td @ [\<lparr>query = strip_quotes (parts ! 0),
                     category = strip_quotes (parts ! 1),
                     priority = strip_quotes (parts ! 2)\<rparr>]
         else td)"

text \<open>
  The three messages of the service begin with a symbol outside ASCII: the warning sign
  U+26A0 (lines 49 and 53) and the check mark U+2705 (line 94). \<^verbatim>\<open>print\<close> raises
  \<^verbatim>\<open>UnicodeEncodeError\<close> where the standard output cannot encode them (an ASCII or
  cp1252 stream, for instance) and raises nothing where it can (UTF-8). The flag says which
  of the two streams the process has.
\<close>

definition py_print :: "bool \<Rightarrow> py_error option" where
  "py_print stdout_encodes = (if stdout_encodes then None else Some UnicodeEncodeError)"

text \<open>
  A method changes the object and may raise: its result is the object after the call and
  the exception that left it, if any.

  The handler of \<^verbatim>\<open>load_csv_data\<close> prints before it sets the default patterns, so an
  exception of that print leaves the method with the patterns unset.
\<close>

definition load_handler :: "bool \<Rightarrow> service \<Rightarrow> service \<times> py_error option" where
  "load_handler stdout_encodes s =
     (case py_print stdout_encodes of
        Some e \<Rightarrow> (s, Some e)
      | None \<Rightarrow> (setup_default_patterns s, None))"

definition load_csv_data :: "bool \<Rightarrow> csv_file \<Rightarrow> service \<Rightarrow> service \<times> py_error option" where
  "load_csv_data stdout_encodes file s =
     (case file of
        Lines lines \<Rightarrow>
          (s\<lparr>training_data := fold (\<lambda>line td. load_line td line) (drop 1 lines) (training_data s),
             models_loaded := True\<rparr>, None)
      | NotFound \<Rightarrow>
          (case py_print stdout_encodes of
             Some e \<Rightarrow> load_handler stdout_encodes s
           | None \<Rightarrow> (setup_default_patterns s, None))
      | ReadError \<Rightarrow> load_handler stdout_encodes s)"

subsection \<open>Building the patterns\<close>

type_synonym word_counts = "nat pydict"

definition ensure_label :: "word_counts pydict \<Rightarrow> string \<Rightarrow> word_counts pydict" where
  "ensure_label lw label = (if label \<notin> set (dict_keys lw) then dict_set lw label [] else lw)"

definition count_word :: "word_counts pydict \<Rightarrow> string \<Rightarrow> string \<Rightarrow> word_counts pydict" where
  "count_word lw label word =
     (let ws = dict_get lw label []
      in dict_set lw label (dict_set ws word (dict_get ws word 0 + 1)))"

definition count_item ::
  "training_sample \<Rightarrow> word_counts pydict \<times> word_counts pydict
     \<Rightarrow> word_counts pydict \<times> word_counts pydict" where
  "count_item item cp =
     (let words = extract_words (query item);
          category_words = ensure_label (fst cp) (category item);
          priority_words = ensure_label (snd cp) (priority item)
      in fold (\<lambda>word (cw, pw).
                 (count_word cw (category item) word, count_word pw (priority item) word))
           words (category_words, priority_words))"

text \<open>\<^verbatim>\<open>sorted(words.items(), key=lambda x: x[1], reverse=True)\<close>: a stable sort, the
  larger counts first, equal counts in the order of the dictionary.\<close>

definition sorted_desc :: "word_counts \<Rightarrow> word_counts" where
  "sorted_desc items = sort_key (\<lambda>x. - int (snd x)) items"

definition top_words :: "nat \<Rightarrow> word_counts \<Rightarrow> string list" where
  "top_words n words =
     (let sorted_words = take n (sorted_desc words)
      in map fst (filter (\<lambda>(word, count). count > 1) sorted_words))"

definition extract_top :: "nat \<Rightarrow> word_counts pydict \<Rightarrow> string list pydict" where
  "extract_top n lw = fold (\<lambda>(label, words) pats. dict_set pats label (top_words n words)) lw []"

text \<open>The message of line 94 is printed after both tables are assigned, when
  \<^verbatim>\<open>models_loaded\<close> is set; with no training data the method returns before it.\<close>

definition build_patterns :: "bool \<Rightarrow> service \<Rightarrow> service \<times> py_error option" where
  "build_patterns stdout_encodes s =
     (if training_data s = [] then (setup_default_patterns s, None)
      else
        let (category_words, priority_words) = fold count_item (training_data s) ([], []);
            s' = s\<lparr>category_patterns := extract_top 50 category_words,
                    priority_patterns := extract_top 30 priority_words\<rparr>
        in if models_loaded s' then (s', py_print stdout_encodes) else (s', None))"

text \<open>\<^verbatim>\<open>StandaloneMLService()\<close>, run once when the module is loaded (line 248): the
  constructor calls the two methods in turn, and an exception of either leaves it, so that
  no service object exists.\<close>

definition init :: "bool \<Rightarrow> csv_file \<Rightarrow> py_error + service" where
  "init stdout_encodes file =
     (case load_csv_data stdout_encodes file new_service of
        (s, Some e) \<Rightarrow> Inl e
      | (s, None) \<Rightarrow>
          (case build_patterns stdout_encodes s of
             (s', Some e) \<Rightarrow> Inl e
           | (s', None) \<Rightarrow> Inr s'))"

section \<open>Classification\<close>

text \<open>Category scores grow by 2 and by 0.5: they are rationals with denominator at most
  two, which the floating-point numbers of the source hold exactly. Priority scores are
  integers.\<close>

definition category_score :: "string list \<Rightarrow> string list \<Rightarrow> rat" where
  "category_score patterns words =
     fold (\<lambda>word score.
             fold (\<lambda>pattern score. if contains word pattern \<or> contains pattern word
                                    then score + 1 / 2 else score)
               patterns (if word \<in> set patterns then score + 2 else score))
       words 0"

definition score_categories :: "string list pydict \<Rightarrow> string list \<Rightarrow> rat pydict" where
  "score_categories table words =
     fold (\<lambda>(cat, patterns) scores. dict_set scores cat (category_score patterns words)) table []"

definition priority_score :: "string list \<Rightarrow> string list \<Rightarrow> int" where
  "priority_score patterns words = sum_list (map (\<lambda>word. if word \<in> set patterns then 2 else 0) words)"

definition score_priorities :: "string list pydict \<Rightarrow> string list \<Rightarrow> int pydict" where
  "score_priorities table words =
     fold (\<lambda>(prio, patterns) scores. dict_set scores prio (priority_score patterns words)) table []"

definition boost :: "bool \<Rightarrow> string \<Rightarrow> 'v::plus \<Rightarrow> 'v \<Rightarrow> 'v pydict \<Rightarrow> 'v pydict" where
  "boost cond label zero amount scores =
     (if cond then dict_set scores label (dict_get scores label zero + amount) else scores)"

definition apply_context_rules :: "string \<Rightarrow> string list \<Rightarrow> rat pydict \<Rightarrow> rat pydict" where
  "apply_context_rules query_lower words category_scores =
     (let s1 = boost (contains query_lower ''hostel'' \<or> contains query_lower ''room'')
                 ''Hostel/Mess'' 0 3 category_scores;
          s2 = boost (any_in [''broken'', ''not working'', ''repair'', ''fix''] query_lower)
                 ''Maintenance'' 0 2 s1;
          s3 = boost (any_in [''portal'', ''system'', ''software'', ''computer''] query_lower)
                 ''Technical'' 0 2 s2;
          s4 = boost (any_in [''exam'', ''grade'', ''class'', ''lecture''] query_lower)
                 ''Academic'' 0 2 s3
      in s4)"

definition apply_priority_context ::
  "string \<Rightarrow> string list \<Rightarrow> string \<Rightarrow> int pydict \<Rightarrow> int pydict" where
  "apply_priority_context query_lower words cat priority_scores =
     (let s1 = boost (any_in [''urgent'', ''emergency'', ''immediately'', ''asap''] query_lower)
                 ''urgent'' 0 5 priority_scores;
          s2 = boost (any_in [''broken'', ''not working'', ''damaged''] query_lower)
                 ''urgent'' 0 3 s1;
          s3 = boost (any_in [''important'', ''needed'', ''required'', ''missing''] query_lower)
                 ''high'' 0 2 s2;
          s4 = boost (any_in [''exam'', ''grade'', ''certificate''] query_lower)
                 ''high'' 0 2 s3;
          s5 = boost (cat = ''Maintenance''
                      \<and> any_in [''water'', ''electricity'', ''elevator''] query_lower)
                 ''urgent'' 0 2 s4;
          s6 = boost (cat = ''Technical''
                      \<and> any_in [''login'', ''portal'', ''wifi''] query_lower)
                 ''urgent'' 0 2 s5
      in s6)"

text \<open>The selection at the end of \<^verbatim>\<open>classify_user_query\<close>; \<^verbatim>\<open>max\<close> of the priority
  values is taken before the test against zero and raises on an empty dictionary.\<close>

definition select_category :: "rat pydict \<Rightarrow> py_error + string" where
  "select_category category_scores =
     (if category_scores \<noteq> [] then max_key category_scores else Inr ''Technical'')"

definition select_priority :: "int pydict \<Rightarrow> py_error + string" where
  "select_priority priority_scores =
     (case py_max id (dict_values priority_scores) of
        Inl e \<Rightarrow> Inl e
      | Inr m \<Rightarrow> if m > 0 then max_key priority_scores else Inr ''medium'')"

definition classify_user_query :: "service \<Rightarrow> string \<Rightarrow> py_error + string \<times> string" where
  "classify_user_query s q =
     (let words = extract_words q;
          query_lower = lower q
      in case rule_based_classification query_lower words of
           Some (cat, prio) \<Rightarrow> Inr (cat, prio)
         | None \<Rightarrow>
            (let category_scores = apply_context_rules query_lower words
                                     (score_categories (category_patterns s) words)
             in case select_category category_scores of
                  Inl e \<Rightarrow> Inl e
                | Inr predicted_category \<Rightarrow>
                   (let priority_scores = apply_priority_context query_lower words
                          predicted_category (score_priorities (priority_patterns s) words)
                    in case select_priority priority_scores of
                         Inl e \<Rightarrow> Inl e
                       | Inr predicted_priority \<Rightarrow>
                           Inr (predicted_category, predicted_priority))))"

text \<open>\<^verbatim>\<open>ml_service.classify_user_query(query)\<close> on the module's service object: where the
  constructor raised there is no object, and its exception is all there is.\<close>

definition classify_on :: "py_error + service \<Rightarrow> string \<Rightarrow> py_error + string \<times> string" where
  "classify_on ml_service q =
     (case ml_service of Inl e \<Rightarrow> Inl e | Inr s \<Rightarrow> classify_user_query s q)"

section \<open>The specification's reading of the shortcut rules\<close>

text \<open>
  The specification gives the shortcuts as a table of eight rules tried in order: a set of
  trigger words and the result; the first two rules also name a second word set, and give
  one result when a word of it is present as well and another when none is.
\<close>

definition shortcut_rules ::
  "(string list \<times> string list \<times> (string \<times> string) \<times> (string \<times> string)) list" where
  "shortcut_rules =
    [([''water'', ''tap'', ''leak'', ''plumbing'', ''pipe'', ''drainage''],
        [''hostel'', ''room'', ''mess''],
        (''Hostel/Mess'', ''urgent''), (''Maintenance'', ''urgent'')),
     ([''electricity'', ''power'', ''light'', ''bulb'', ''electrical''],
        [''hostel'', ''room''],
        (''Hostel/Mess'', ''urgent''), (''Maintenance'', ''high'')),
     ([''food'', ''meal'', ''mess'', ''dining'', ''kitchen'', ''quality''],
        [], (''Hostel/Mess'', ''high''), (''Hostel/Mess'', ''high'')),
     ([''room'', ''furniture'', ''bed'', ''chair'', ''table''],
        [], (''Hostel/Mess'', ''medium''), (''Hostel/Mess'', ''medium'')),
     ([''login'', ''portal'', ''password'', ''access''],
        [], (''Technical'', ''urgent''), (''Technical'', ''urgent'')),
     ([''wifi'', ''internet'', ''network'', ''connection''],
        [], (''Technical'', ''urgent''), (''Technical'', ''urgent'')),
     ([''grade'', ''marks'', ''exam'', ''certificate'', ''attendance''],
        [], (''Academic'', ''high''), (''Academic'', ''high'')),
     ([''broken'', ''repair'', ''fix'', ''maintenance'', ''elevator'', ''lift''],
        [], (''Maintenance'', ''urgent''), (''Maintenance'', ''urgent''))]"

definition first_matching_rule :: "string \<Rightarrow> (string \<times> string) option" where
  "first_matching_rule query_lower =
     map_option (\<lambda>(trigger, also, both, only). if any_in also query_lower then both else only)
       (find (\<lambda>(trigger, also, both, only). any_in trigger query_lower) shortcut_rules)"

section \<open>The specification's reading of the scores\<close>

text \<open>The score of a category as the specification words it: a sum over the extracted
  words of 2 for a word that is in the pattern list, plus one half for each entry of the
  list that is a substring of the word or has the word as a substring.\<close>

definition spec_category_score :: "string list \<Rightarrow> string list \<Rightarrow> rat" where
  "spec_category_score patterns words =
     (\<Sum>w\<leftarrow>words. (if w \<in> set patterns then 2 else 0)
        + (1 / 2) * of_nat (length (filter (\<lambda>p. contains w p \<or> contains p w) patterns)))"

definition spec_priority_score :: "string list \<Rightarrow> string list \<Rightarrow> int" where
  "spec_priority_score patterns words = 2 * int (length (filter (\<lambda>w. w \<in> set patterns) words))"

section \<open>The specification's default tables\<close>

definition spec_category_defaults :: "(string \<times> string list) list" where
  "spec_category_defaults =
    [(''Technical'', [''login'', ''password'', ''portal'', ''wifi'', ''internet'', ''network'',
       ''computer'', ''laptop'', ''software'', ''email'', ''lms'', ''system'']),
     (''Academic'', [''grade'', ''marks'', ''exam'', ''attendance'', ''lecture'', ''class'',
       ''assignment'', ''certificate'', ''transfer'', ''timetable'', ''professor'']),
     (''Hostel/Mess'', [''hostel'', ''room'', ''mess'', ''food'', ''meal'', ''accommodation'',
       ''furniture'', ''allotment'', ''quality'', ''dining'']),
     (''Maintenance'', [''maintenance'', ''repair'', ''broken'', ''electricity'', ''water'',
       ''tap'', ''elevator'', ''cleaning'', ''lighting'', ''conditioning''])]"

definition spec_priority_defaults :: "(string \<times> string list) list" where
  "spec_priority_defaults =
    [(''urgent'', [''urgent'', ''emergency'', ''immediately'', ''broken'', ''not'', ''working'',
       ''critical'']),
     (''high'', [''important'', ''soon'', ''needed'', ''missing'', ''exam'', ''grade'',
       ''deteriorated'']),
     (''medium'', [''moderate'', ''normal'', ''permission'', ''competition'', ''week'']),
     (''low'', [''later'', ''minor'', ''simple'', ''routine'', ''cleaning'', ''dim''])]"

section \<open>The specification's reading of word extraction\<close>

text \<open>Splitting on whitespace as the specification means it: the tokens are the maximal
  blocks of characters that are not whitespace, from left to right.\<close>

function spec_tokens :: "string \<Rightarrow> string list" where
  "spec_tokens str =
     (let rest = dropWhile isspace str
      in if rest = [] then []
         else takeWhile (\<lambda>c. \<not> isspace c) rest
              # spec_tokens (dropWhile (\<lambda>c. \<not> isspace c) rest))"
  by pat_completeness auto
termination
proof (relation "measure length")
  show "wf (measure length)" by simp
next
  fix str rest :: string
  assume rest: "rest = dropWhile isspace str" and ne: "rest \<noteq> []"
  then have "\<not> isspace (hd rest)"
    using hd_dropWhile by metis
  with ne have "length (dropWhile (\<lambda>c. \<not> isspace c) rest) < length rest"
    by (cases rest) (auto simp: less_Suc_eq_le length_dropWhile_le)
  also have "length rest \<le> length str"
    by (simp add: rest length_dropWhile_le)
  finally show "(dropWhile (\<lambda>c. \<not> isspace c) rest, str) \<in> measure length" by simp
qed

declare spec_tokens.simps [simp del]

text \<open>A text made of the given words, each followed by one space.\<close>

definition join_spaces :: "string list \<Rightarrow> string" where
  "join_spaces ws = concat (map (\<lambda>w. w @ '' '') ws)"

section \<open>The specification's reading of the selection\<close>

text \<open>The label of the first entry, in table order, whose score no entry of the table
  exceeds; for the category \<open>Technical\<close> when the table has no entry, for the priority
  \<open>medium\<close> unless that score is positive.\<close>

definition first_maximal :: "(string \<times> 'v::linorder) list \<Rightarrow> (string \<times> 'v) option" where
  "first_maximal d = find (\<lambda>e. \<forall>e' \<in> set d. snd e' \<le> snd e) d"

definition spec_category :: "(string \<times> rat) list \<Rightarrow> string" where
  "spec_category scores =
     (case first_maximal scores of None \<Rightarrow> ''Technical'' | Some e \<Rightarrow> fst e)"

definition spec_priority :: "(string \<times> int) list \<Rightarrow> string" where
  "spec_priority scores =
     (case first_maximal scores of
        None \<Rightarrow> ''medium''
      | Some e \<Rightarrow> if snd e > 0 then fst e else ''medium'')"

section \<open>The specification's reading of the pattern builder\<close>

text \<open>The distinct elements of a list in the order of their first occurrence.\<close>

fun first_seen :: "'a list \<Rightarrow> 'a list" where
  "first_seen [] = []"
| "first_seen (x # xs) = x # filter (\<lambda>y. y \<noteq> x) (first_seen xs)"

text \<open>The words counted under one label: the extracted words of the samples that carry
  the label, in corpus order. The frequency of a word is the number of its occurrences in
  that list, and the words are first counted in the order of \<open>first_seen\<close>.\<close>

definition label_words ::
  "(training_sample \<Rightarrow> string) \<Rightarrow> string \<Rightarrow> training_sample list \<Rightarrow> string list" where
  "label_words label_of l samples =
     concat (map (\<lambda>item. extract_words (query item)) (filter (\<lambda>item. label_of item = l) samples))"

text \<open>The top \<open>n\<close> words by frequency among those that occur more than once, the more
  frequent first, equally frequent words in the order they were first counted.\<close>

definition spec_top :: "nat \<Rightarrow> string list \<Rightarrow> string list" where
  "spec_top n ws =
     take n (filter (\<lambda>w. count_list ws w > 1)
       (sort_key (\<lambda>w. - int (count_list ws w)) (first_seen ws)))"

definition spec_patterns ::
  "nat \<Rightarrow> (training_sample \<Rightarrow> string) \<Rightarrow> training_sample list \<Rightarrow> (string \<times> string list) list" where
  "spec_patterns n label_of samples =
     map (\<lambda>l. (l, spec_top n (label_words label_of l samples)))
       (first_seen (map label_of samples))"

text \<open>The word counts of a list of words as a table in first-counted order, and the
  table of such tables for a list of labels.\<close>

definition word_freqs :: "string list \<Rightarrow> word_counts" where
  "word_freqs ws = map (\<lambda>w. (w, count_list ws w)) (first_seen ws)"

definition counts_of :: "(string \<Rightarrow> string list) \<Rightarrow> string list \<Rightarrow> word_counts pydict" where
  "counts_of S L = map (\<lambda>l. (l, word_freqs (S l))) L"

section \<open>Corpus fixtures\<close>

text \<open>A corpus line as the specification describes the format: three fields, each between
  double quotes, separated by commas, ended by a newline.\<close>

definition quoted :: "string \<Rightarrow> string" where
  "quoted field = CHR 0x22 # field @ [CHR 0x22]"

definition csv_line :: "string \<Rightarrow> string \<Rightarrow> string \<Rightarrow> string" where
  "csv_line q c p = quoted q @ '','' @ quoted c @ '','' @ quoted p @ [CHR 0x0A]"

definition csv_header :: string where
  "csv_header = ''query,category,priority'' @ [CHR 0x0A]"

definition valid_categories :: "string list" where
  "valid_categories = [''Technical'', ''Academic'', ''Hostel/Mess'', ''Maintenance'']"

definition valid_priorities :: "string list" where
  "valid_priorities = [''low'', ''medium'', ''high'', ''urgent'']"

section \<open>Initialisation\<close>

lemma init_default:
  "init True NotFound = Inr (setup_default_patterns new_service)"
  "init True ReadError = Inr (setup_default_patterns new_service)"
  by (simp_all add: init_def load_csv_data_def load_handler_def py_print_def build_patterns_def
      setup_default_patterns_def new_service_def)

lemma classify_on_default:
  "classify_on (init True NotFound) q = classify_user_query (setup_default_patterns new_service) q"
  by (simp add: init_default classify_on_def)

lemma load_csv_data_Lines:
  "load_csv_data out (Lines ls) s
     = (s\<lparr>training_data := fold (\<lambda>line td. load_line td line) (drop 1 ls) (training_data s),
          models_loaded := True\<rparr>, None)"
  by (simp add: load_csv_data_def)

lemma load_csv_data_training:
  "file = NotFound \<or> file = ReadError \<Longrightarrow>
   training_data (fst (load_csv_data out file new_service)) = []"
  by (auto simp: load_csv_data_def load_handler_def py_print_def setup_default_patterns_def
      new_service_def)

lemma build_patterns_training:
  "training_data (fst (build_patterns out s)) = training_data s"
  by (simp add: build_patterns_def setup_default_patterns_def Let_def split: prod.splits)

lemma init_Inr:
  assumes "init out file = Inr s"
  shows "s = fst (build_patterns out (fst (load_csv_data out file new_service)))"
    and "training_data s = training_data (fst (load_csv_data out file new_service))"
proof -
  from assms show s: "s = fst (build_patterns out (fst (load_csv_data out file new_service)))"
    by (auto simp: init_def split: prod.splits option.splits)
  show "training_data s = training_data (fst (load_csv_data out file new_service))"
    by (simp only: s build_patterns_training)
qed

lemma init_Lines_printable:
  "init True (Lines ls)
     = Inr (fst (build_patterns True (fst (load_csv_data True (Lines ls) new_service))))"
  by (simp add: init_def load_csv_data_Lines build_patterns_def py_print_def Let_def
      split: prod.splits)

lemma init_True_total: "\<exists>s. init True file = Inr s"
proof (cases "file")
  case NotFound
  then show ?thesis by (simp add: init_default)
next
  case ReadError
  then show ?thesis by (simp add: init_default)
next
  case (Lines ls)
  then show ?thesis
    by (simp add: init_def load_csv_data_Lines build_patterns_def py_print_def Let_def
        split: prod.splits)
qed

section \<open>Shortcut rules\<close>

lemma rule_based_first_match:
  "rule_based_classification query_lower words = first_matching_rule query_lower"
  unfolding rule_based_classification_def first_matching_rule_def shortcut_rules_def
  by simp

lemma classify_rule_hit:
  "rule_based_classification (lower q) (extract_words q) = Some r \<Longrightarrow>
   classify_user_query s q = Inr r"
  by (cases r) (simp add: classify_user_query_def)

lemma hostel_tap_rule:
  "rule_based_classification (lower ''My hostel tap is leaking'')
     (extract_words ''My hostel tap is leaking'') = Some (''Hostel/Mess'', ''urgent'')"
  by code_simp

text \<open>
  Claim C2. The shortcut stage of the code is the specification's rule table read in
  order: the first rule with a trigger word occurring in the lower-cased text gives the
  result (for the first two rules, the one result or the other as a word of the second set
  occurs or not). When a rule matches, the classification is that rule's result whatever
  the pattern tables hold, so neither scoring nor contextual adjustment takes part. The
  text "My hostel tap is leaking" is classified (Hostel/Mess, urgent).
\<close>

theorem rule_precedence:
  "rule_based_classification query_lower words = first_matching_rule query_lower
   \<and> (rule_based_classification (lower q) (extract_words q) = Some r
        \<longrightarrow> classify_user_query s q = Inr r)
   \<and> classify_user_query s ''My hostel tap is leaking'' = Inr (''Hostel/Mess'', ''urgent'')"
  using rule_based_first_match classify_rule_hit classify_rule_hit [OF hostel_tap_rule]
  by blast

theorem rule_precedence_witness:
  "rule_based_classification (lower ''The elevator is broken and needs repair'')
     (extract_words ''The elevator is broken and needs repair'') = Some (''Maintenance'', ''urgent'')
   \<and> classify_on (init True NotFound) ''The elevator is broken and needs repair''
       = Inr (''Maintenance'', ''urgent'')"
proof -
  have hit: "rule_based_classification (lower ''The elevator is broken and needs repair'')
     (extract_words ''The elevator is broken and needs repair'') = Some (''Maintenance'', ''urgent'')"
    by code_simp
  with rule_precedence [of "[]" "[]" "''The elevator is broken and needs repair''"
      "(''Maintenance'', ''urgent'')" "setup_default_patterns new_service"]
  have "classify_user_query (setup_default_patterns new_service)
      ''The elevator is broken and needs repair'' = Inr (''Maintenance'', ''urgent'')"
    by blast
  with hit show ?thesis by (simp only: classify_on_default)
qed

text \<open>
  Claim C3, as amended. The text "I need help urgently, my exam grade certificate is
  missing" contains "grade", "exam" and "certificate" and no trigger word of rules 1 to 6,
  so rule 7 answers: the category is Academic and the priority is high, whatever the
  pattern tables hold.
\<close>

theorem exam_certificate_query:
  "classify_user_query s ''I need help urgently, my exam grade certificate is missing''
     = Inr (''Academic'', ''high'')"
  by (rule classify_rule_hit) code_simp

text \<open>With the default tables the result for that text is not (Academic, urgent).\<close>

theorem exam_certificate_not_urgent:
  "classify_on (init True NotFound)
     ''I need help urgently, my exam grade certificate is missing''
     \<noteq> Inr (''Academic'', ''urgent'')"
  by code_simp

section \<open>Corpus lines with commas inside the query\<close>

text \<open>
  Claim C10. The loader splits a line at its first two commas and strips double quotes at
  the ends of each part. For the record with query "Water leaking, room flooded", category
  Hostel/Mess and priority urgent, written with quoted fields, the stored query is
  "Water leaking" and the stored category is " room flooded", a piece of the query text,
  not the record's category field.
\<close>

theorem quoted_comma_misparsed:
  "map (\<lambda>item. (query item, category item))
     (training_data (fst (load_csv_data True
        (Lines [csv_header, csv_line ''Water leaking, room flooded'' ''Hostel/Mess'' ''urgent''])
        new_service)))
   = [(''Water leaking'', '' room flooded'')]
   \<and> contains ''Water leaking, room flooded'' '' room flooded''
   \<and> '' room flooded'' \<noteq> ''Hostel/Mess''"
  by code_simp

section \<open>Dictionaries built by a loop\<close>

lemma update_fresh: "k \<notin> fst ` set d \<Longrightarrow> AList.update k v d = d @ [(k, v)]"
  by (induction d) auto

lemma fold_dict_set_fresh:
  "distinct (map fst t) \<Longrightarrow> fst ` set t \<inter> fst ` set acc = {} \<Longrightarrow>
   fold (\<lambda>(k, v) d. dict_set d k (g v)) t acc = acc @ map (\<lambda>(k, v). (k, g v)) t"
proof (induction t arbitrary: acc)
  case Nil
  then show ?case by simp
next
  case (Cons e t)
  obtain k v where e: "e = (k, v)" by (cases e)
  from Cons.prems e have fresh: "k \<notin> fst ` set acc" by auto
  have step: "dict_set acc k (g v) = acc @ [(k, g v)]"
    by (simp add: dict_set_def update_fresh [OF fresh])
  from Cons.prems e have "distinct (map fst t)"
    and "fst ` set t \<inter> fst ` set (acc @ [(k, g v)]) = {}"
    by (auto simp: image_iff)
  from Cons.IH [OF this] show ?case by (simp add: e step)
qed

section \<open>Weighted scores\<close>

lemma inner_fold_count:
  "fold (\<lambda>p sc. if P p then sc + 1 / 2 else sc) ps (acc::rat)
     = acc + (1 / 2) * of_nat (length (filter P ps))"
  by (induction ps arbitrary: acc) (simp_all add: algebra_simps)

lemma category_score_from:
  "fold (\<lambda>word score.
             fold (\<lambda>pattern score. if contains word pattern \<or> contains pattern word
                                    then score + 1 / 2 else score)
               patterns (if word \<in> set patterns then score + 2 else score))
       words acc = acc + spec_category_score patterns words"
  by (induction words arbitrary: acc)
     (simp_all add: spec_category_score_def inner_fold_count algebra_simps)

lemma category_score_spec: "category_score patterns words = spec_category_score patterns words"
  by (simp add: category_score_def category_score_from)

lemma priority_score_spec: "priority_score patterns words = spec_priority_score patterns words"
  by (induction words) (simp_all add: priority_score_def spec_priority_score_def)

lemma score_categories_map:
  "distinct (map fst table) \<Longrightarrow>
   score_categories table words = map (\<lambda>(l, pats). (l, category_score pats words)) table"
  unfolding score_categories_def
  using fold_dict_set_fresh [of table "[]" "\<lambda>pats. category_score pats words"] by simp

lemma score_priorities_map:
  "distinct (map fst table) \<Longrightarrow>
   score_priorities table words = map (\<lambda>(l, pats). (l, priority_score pats words)) table"
  unfolding score_priorities_def
  using fold_dict_set_fresh [of table "[]" "\<lambda>pats. priority_score pats words"] by simp

lemma classify_scoring_path:
  "rule_based_classification (lower q) (extract_words q) = None \<Longrightarrow>
   classify_user_query s q =
     (case select_category (apply_context_rules (lower q) (extract_words q)
             (score_categories (category_patterns s) (extract_words q))) of
        Inl e \<Rightarrow> Inl e
      | Inr c \<Rightarrow>
         (case select_priority (apply_priority_context (lower q) (extract_words q) c
                 (score_priorities (priority_patterns s) (extract_words q))) of
            Inl e \<Rightarrow> Inl e
          | Inr p \<Rightarrow> Inr (c, p)))"
  by (simp add: classify_user_query_def Let_def split: sum.splits)

text \<open>
  Claim C5. The pattern tables are dictionaries, so their keys are distinct. The score
  table of the categories then pairs every label, in table order, with the sum over the
  words of 2 for a word in the label's pattern list plus one half for each entry of the
  list that is a substring of the word or contains it; the two terms add up. The score
  table of the priorities pairs every label with 2 for each word in the label's list and
  nothing else. When no shortcut rule matches, the classification is the selection made
  from exactly these two tables after the contextual adjustment.
\<close>

theorem weighted_scores:
  assumes "distinct (dict_keys (category_patterns s))"
    and "distinct (dict_keys (priority_patterns s))"
  shows "score_categories (category_patterns s) words
           = map (\<lambda>(label, patterns). (label, spec_category_score patterns words))
               (category_patterns s)
     \<and> score_priorities (priority_patterns s) words
           = map (\<lambda>(label, patterns). (label, spec_priority_score patterns words))
               (priority_patterns s)
     \<and> (rule_based_classification (lower q) (extract_words q) = None \<longrightarrow>
          classify_user_query s q =
            (case select_category (apply_context_rules (lower q) (extract_words q)
                    (map (\<lambda>(label, patterns).
                            (label, spec_category_score patterns (extract_words q)))
                       (category_patterns s))) of
               Inl e \<Rightarrow> Inl e
             | Inr c \<Rightarrow>
                (case select_priority (apply_priority_context (lower q) (extract_words q) c
                        (map (\<lambda>(label, patterns).
                                (label, spec_priority_score patterns (extract_words q)))
                           (priority_patterns s))) of
                   Inl e \<Rightarrow> Inl e
                 | Inr p \<Rightarrow> Inr (c, p))))"
proof -
  have cats: "score_categories (category_patterns s) ws
      = map (\<lambda>(label, patterns). (label, spec_category_score patterns ws)) (category_patterns s)"
    for ws
    using assms(1) by (simp add: score_categories_map dict_keys_def category_score_spec)
  have prios: "score_priorities (priority_patterns s) ws
      = map (\<lambda>(label, patterns). (label, spec_priority_score patterns ws)) (priority_patterns s)"
    for ws
    using assms(2) by (simp add: score_priorities_map dict_keys_def priority_score_spec)
  show ?thesis
    using cats [of words] prios [of words] classify_scoring_path [of q s]
    by (simp only: cats prios) simp
qed

theorem weighted_scores_witness:
  "init True NotFound = Inr (setup_default_patterns new_service)
   \<and> distinct (dict_keys (category_patterns (setup_default_patterns new_service)))
   \<and> distinct (dict_keys (priority_patterns (setup_default_patterns new_service)))
   \<and> rule_based_classification (lower ''Important: my class schedule is missing'')
        (extract_words ''Important: my class schedule is missing'') = None
   \<and> score_categories (category_patterns (setup_default_patterns new_service))
        [''class'', ''schedule'', ''missing'']
        = [(''Technical'', 0), (''Academic'', 5 / 2), (''Hostel/Mess'', 0), (''Maintenance'', 0)]
   \<and> score_priorities (priority_patterns (setup_default_patterns new_service))
        [''class'', ''schedule'', ''missing'']
        = [(''urgent'', 0), (''high'', 2), (''medium'', 0), (''low'', 0)]
   \<and> classify_on (init True NotFound) ''Important: my class schedule is missing''
        = Inr (''Academic'', ''high'')"
proof -
  define S where "S = setup_default_patterns new_service"
  have i: "init True NotFound = Inr S"
    unfolding S_def by (rule init_default)
  have d1: "distinct (dict_keys (category_patterns S))"
    unfolding S_def by code_simp
  have d2: "distinct (dict_keys (priority_patterns S))"
    unfolding S_def by code_simp
  have none: "rule_based_classification (lower ''Important: my class schedule is missing'')
        (extract_words ''Important: my class schedule is missing'') = None"
    by code_simp
  have c: "map (\<lambda>(label, patterns).
                 (label, spec_category_score patterns [''class'', ''schedule'', ''missing'']))
             (category_patterns S)
        = [(''Technical'', 0), (''Academic'', 5 / 2), (''Hostel/Mess'', 0), (''Maintenance'', 0)]"
    unfolding S_def by code_simp
  have p: "map (\<lambda>(label, patterns).
                 (label, spec_priority_score patterns [''class'', ''schedule'', ''missing'']))
             (priority_patterns S)
        = [(''urgent'', 0), (''high'', 2), (''medium'', 0), (''low'', 0)]"
    unfolding S_def by code_simp
  have r: "classify_on (init True NotFound) ''Important: my class schedule is missing''
        = Inr (''Academic'', ''high'')"
    by code_simp
  from weighted_scores [OF d1 d2, of "[''class'', ''schedule'', ''missing'']"
      "''Important: my class schedule is missing''"]
  have "score_categories (category_patterns S) [''class'', ''schedule'', ''missing'']
        = [(''Technical'', 0), (''Academic'', 5 / 2), (''Hostel/Mess'', 0), (''Maintenance'', 0)]
     \<and> score_priorities (priority_patterns S) [''class'', ''schedule'', ''missing'']
        = [(''urgent'', 0), (''high'', 2), (''medium'', 0), (''low'', 0)]"
    by (simp only: c p)
  with i d1 d2 none r show ?thesis unfolding S_def by blast
qed

section \<open>Loading the corpus\<close>

lemma load_fold:
  "fold (\<lambda>line td. load_line td line) ls td
     = td @ map (\<lambda>l. \<lparr>query = strip_quotes (comma_parts l ! 0),
                     category = strip_quotes (comma_parts l ! 1),
                     priority = strip_quotes (comma_parts l ! 2)\<rparr>)
              (filter (\<lambda>l. \<not> length (comma_parts l) < 3) ls)"
  by (induction ls arbitrary: td) (simp_all add: load_line_def Let_def)

lemma split_sep_length:
  "length (split_sep sep n cur str) = 1 + min n (count_list str sep)"
  by (induction sep n cur str rule: split_sep.induct) auto

lemma defaults_are_spec:
  "default_category_patterns = spec_category_defaults"
  "default_priority_patterns = spec_priority_defaults"
  by (simp_all add: default_category_patterns_def spec_category_defaults_def
        default_priority_patterns_def spec_priority_defaults_def)

lemma init_no_samples:
  assumes "init out file = Inr s" and "training_data s = []"
  shows "category_patterns s = default_category_patterns
     \<and> priority_patterns s = default_priority_patterns"
proof -
  let ?s0 = "fst (load_csv_data out file new_service)"
  from init_Inr [OF assms(1)] assms(2)
  have s: "s = fst (build_patterns out ?s0)" and "training_data ?s0 = []"
    by simp_all
  then show ?thesis by (simp add: build_patterns_def setup_default_patterns_def)
qed

lemma loaded_samples:
  "training_data (fst (load_csv_data out (Lines ls) new_service))
     = map (\<lambda>l. \<lparr>query = strip_quotes (comma_parts l ! 0),
                  category = strip_quotes (comma_parts l ! 1),
                  priority = strip_quotes (comma_parts l ! 2)\<rparr>)
         (filter (\<lambda>l. \<not> length (comma_parts l) < 3) (drop 1 ls))"
  by (simp add: load_csv_data_Lines load_fold new_service_def)

lemma init_Lines_no_samples:
  assumes "training_data (fst (load_csv_data out (Lines ls) new_service)) = []"
  shows "\<exists>s. init out (Lines ls) = Inr s
     \<and> category_patterns s = spec_category_defaults
     \<and> priority_patterns s = spec_priority_defaults"
proof -
  from assms have "\<exists>s. init out (Lines ls) = Inr s"
    by (simp add: init_def load_csv_data_Lines build_patterns_def split: prod.splits)
  then obtain s where s: "init out (Lines ls) = Inr s" ..
  from init_Inr(2) [OF s] assms have "training_data s = []" by simp
  from init_no_samples [OF s this] s show ?thesis by (auto simp: defaults_are_spec)
qed

lemma init_printable_no_file:
  assumes "file = NotFound \<or> file = ReadError"
  shows "\<exists>s. init True file = Inr s
     \<and> category_patterns s = spec_category_defaults
     \<and> priority_patterns s = spec_priority_defaults"
  using assms
  by (auto simp: init_default setup_default_patterns_def defaults_are_spec)

text \<open>
  What the loader does whatever the standard output: the samples loaded from a readable
  corpus are those of the lines after the first that split into at least three parts, in
  the order of the file, so the header and every line with fewer than three parts (fewer
  than two commas) are left out and the lines after them are still loaded; the loop raises
  nothing; and when no sample was loaded, the constructor returns a service whose tables
  are the default tables of the specification. When the file is missing or reading it
  fails, the same holds provided the standard output can encode the loader's message.
\<close>

lemma corpus_loading:
  "training_data (fst (load_csv_data out (Lines ls) new_service))
     = map (\<lambda>l. \<lparr>query = strip_quotes (comma_parts l ! 0),
                  category = strip_quotes (comma_parts l ! 1),
                  priority = strip_quotes (comma_parts l ! 2)\<rparr>)
         (filter (\<lambda>l. \<not> length (comma_parts l) < 3) (drop 1 ls))
   \<and> snd (load_csv_data out (Lines ls) new_service) = None
   \<and> (length (comma_parts l) < 3 \<longleftrightarrow> count_list (strip l) CHR '','' < 2)
   \<and> (training_data (fst (load_csv_data out (Lines ls) new_service)) = [] \<longrightarrow>
        (\<exists>s. init out (Lines ls) = Inr s
           \<and> category_patterns s = spec_category_defaults
           \<and> priority_patterns s = spec_priority_defaults))
   \<and> (file = NotFound \<or> file = ReadError \<longrightarrow>
        (\<exists>s. init True file = Inr s
           \<and> category_patterns s = spec_category_defaults
           \<and> priority_patterns s = spec_priority_defaults))"
proof -
  have b: "length (comma_parts l) < 3 \<longleftrightarrow> count_list (strip l) CHR '','' < 2"
    by (auto simp: comma_parts_def split_sep_length)
  have n: "snd (load_csv_data out (Lines ls) new_service) = None"
    by (simp add: load_csv_data_Lines)
  from loaded_samples [of out ls] n b init_Lines_no_samples [of out ls]
    init_printable_no_file [of "file"]
  show ?thesis by blast
qed

text \<open>
  Claim C8. The claim's first half holds on the code, as the lemma above states. Its second
  half, that a missing or unreadable file leaves both tables at the defaults and surfaces
  no error, is what the handler of the loader is written for, and it fails where the
  standard output cannot encode the warning sign of the loader's messages: with no file,
  the print of line 49 raises inside the try block, the handler's own print of line 53
  raises again before the default patterns are set, and the exception leaves the
  constructor; with a file that cannot be read, the handler's print raises likewise. The
  loader then leaves the object as it was, both tables empty.
\<close>

theorem fallback_print_raises:
  "init False NotFound = Inl UnicodeEncodeError
   \<and> init False ReadError = Inl UnicodeEncodeError
   \<and> load_csv_data False NotFound new_service = (new_service, Some UnicodeEncodeError)
   \<and> load_csv_data False ReadError new_service = (new_service, Some UnicodeEncodeError)
   \<and> category_patterns new_service = []
   \<and> priority_patterns new_service = []
   \<and> classify_on (init False NotFound) ''My hostel tap is leaking'' = Inl UnicodeEncodeError"
  by (simp add: init_def load_csv_data_def load_handler_def py_print_def new_service_def
      classify_on_def)

section \<open>Labels that the tables do not hold\<close>

text \<open>
  Claim C9. The contextual boosts create score entries for labels that are not keys of
  the tables built from the corpus. With a corpus whose only labels are Technical and low,
  queries on the scoring path are classified Hostel/Mess, Maintenance and Academic and
  given the priorities urgent and high; with a corpus whose only category is Academic, a
  query is classified Technical.
\<close>

theorem context_adds_labels:
  "map_sum id (\<lambda>s. dict_keys (category_patterns s)) (init True (Lines [csv_header,
       csv_line ''printer printer offline'' ''Technical'' ''low'']))
     = Inr [''Technical'']
   \<and> map_sum id (\<lambda>s. dict_keys (priority_patterns s)) (init True (Lines [csv_header,
       csv_line ''printer printer offline'' ''Technical'' ''low'']))
     = Inr [''low'']
   \<and> map_sum id (\<lambda>s. dict_keys (category_patterns s)) (init True (Lines [csv_header,
       csv_line ''syllabus syllabus'' ''Academic'' ''low'']))
     = Inr [''Academic'']
   \<and> map (\<lambda>q. rule_based_classification (lower q) (extract_words q))
       [''hostel warden is rude'', ''projector not working'', ''lecture cancelled'',
        ''documents missing'', ''software crashed'']
     = [None, None, None, None, None]
   \<and> map (classify_on (init True (Lines [csv_header,
       csv_line ''printer printer offline'' ''Technical'' ''low''])))
       [''hostel warden is rude'', ''projector not working'', ''lecture cancelled'',
        ''documents missing'']
     = [Inr (''Hostel/Mess'', ''medium''), Inr (''Maintenance'', ''urgent''),
        Inr (''Academic'', ''medium''), Inr (''Technical'', ''high'')]
   \<and> classify_on (init True (Lines [csv_header,
       csv_line ''syllabus syllabus'' ''Academic'' ''low''])) ''software crashed''
     = Inr (''Technical'', ''medium'')"
  by code_simp

section \<open>Properties of word extraction\<close>

lemma spec_tokens_step:
  "spec_tokens str =
     (if takeWhile (\<lambda>c. \<not> isspace c) str = [] then [] else [takeWhile (\<lambda>c. \<not> isspace c) str])
     @ spec_tokens (dropWhile (\<lambda>c. \<not> isspace c) str)"
proof (cases str)
  case Nil
  then show ?thesis by (simp add: spec_tokens.simps)
next
  case (Cons c cs)
  then show ?thesis
    by (cases "isspace c") (simp_all add: spec_tokens.simps [of "c # cs"])
qed

lemma spec_tokens_space: "isspace c \<Longrightarrow> spec_tokens (c # cs) = spec_tokens cs"
  by (simp add: spec_tokens.simps [of "c # cs"] spec_tokens.simps [of cs])

lemma split_scan_tokens:
  "split_scan cur str =
     (if cur @ takeWhile (\<lambda>c. \<not> isspace c) str = [] then []
      else [cur @ takeWhile (\<lambda>c. \<not> isspace c) str])
     @ spec_tokens (dropWhile (\<lambda>c. \<not> isspace c) str)"
proof (induction str arbitrary: cur)
  case Nil
  then show ?case by (simp add: spec_tokens.simps)
next
  case (Cons c cs)
  show ?case
  proof (cases "isspace c")
    case True
    then show ?thesis
      using Cons.IH [of "[]"] spec_tokens_step [of cs]
      by (simp add: spec_tokens_space)
  next
    case False
    then show ?thesis using Cons.IH [of "cur @ [c]"] by simp
  qed
qed

lemma split_ws_tokens: "split_ws str = spec_tokens str"
  using split_scan_tokens [of "[]" str] spec_tokens_step [of str] by (simp add: split_ws_def)


lemma alnum_not_space: "is_ascii_lower c \<or> is_ascii_digit c \<Longrightarrow> \<not> isspace c"
  by (auto simp: is_ascii_lower_def is_ascii_digit_def isspace_def)

lemma lower_char_not_upper: "\<not> is_ascii_upper (lower_char c)"
  by (auto simp: lower_char_def is_ascii_upper_def Let_def)

lemma lower_char_alnum: "is_ascii_lower c \<or> is_ascii_digit c \<Longrightarrow> lower_char c = c"
  by (auto simp: lower_char_def is_ascii_lower_def is_ascii_digit_def Let_def)

lemma re_sub_char_alnum: "is_ascii_lower c \<or> is_ascii_digit c \<Longrightarrow> re_sub_char c = c"
  by (auto simp: re_sub_char_def)

lemma normalised_char:
  "is_ascii_lower (re_sub_char (lower_char c)) \<or> is_ascii_digit (re_sub_char (lower_char c))
   \<or> isspace (re_sub_char (lower_char c))"
proof -
  have "isspace CHR '' ''" by (simp add: isspace_def)
  then show ?thesis
    using lower_char_not_upper [of c] by (auto simp: re_sub_char_def)
qed

lemma normalised_space: "re_sub_char (lower_char CHR '' '') = CHR '' ''"
  by code_simp

lemma split_scan_chars:
  "w \<in> set (split_scan cur str) \<Longrightarrow> set w \<subseteq> set cur \<union> {c \<in> set str. \<not> isspace c}"
proof (induction str arbitrary: cur)
  case Nil
  then show ?case by (simp split: if_splits)
next
  case (Cons c cs)
  show ?case
  proof (cases "isspace c")
    case True
    with Cons.prems have "w = cur \<or> w \<in> set (split_scan [] cs)"
      by (auto split: if_splits)
    then show ?thesis using Cons.IH [of "[]"] by auto
  next
    case False
    with Cons.prems have "w \<in> set (split_scan (cur @ [c]) cs)" by simp
    from Cons.IH [OF this] False show ?thesis by auto
  qed
qed

lemma extract_words_chars:
  assumes "w \<in> set (extract_words str)"
  shows "length w > 2 \<and> (\<forall>c \<in> set w. is_ascii_lower c \<or> is_ascii_digit c)"
proof -
  let ?t = "map re_sub_char (lower str)"
  from assms have len: "length w > 2" and mem: "w \<in> set (split_scan [] ?t)"
    by (simp_all add: extract_words_def split_ws_def)
  from split_scan_chars [OF mem] have sub: "set w \<subseteq> {c \<in> set ?t. \<not> isspace c}" by simp
  have "is_ascii_lower c \<or> is_ascii_digit c" if "c \<in> set w" for c
  proof -
    from that sub have "c \<in> set ?t" and ns: "\<not> isspace c" by auto
    then obtain d where "c = re_sub_char (lower_char d)" by (auto simp: lower_def)
    with normalised_char [of d] ns show ?thesis by auto
  qed
  with len show ?thesis by blast
qed

lemma split_scan_at_space:
  "isspace c \<Longrightarrow> split_scan cur (a @ c # b) = split_scan cur a @ split_scan [] b"
  by (induction a arbitrary: cur) auto

lemma split_scan_word:
  "\<forall>c \<in> set w. \<not> isspace c \<Longrightarrow> split_scan cur w = (if cur @ w = [] then [] else [cur @ w])"
  by (induction w arbitrary: cur) auto

lemma split_ws_join:
  "\<forall>w \<in> set ws. w \<noteq> [] \<and> (\<forall>c \<in> set w. \<not> isspace c) \<Longrightarrow> split_ws (join_spaces ws) = ws"
proof (induction ws)
  case Nil
  then show ?case by (simp add: split_ws_def join_spaces_def)
next
  case (Cons w ws)
  have sp: "isspace CHR '' ''" by (simp add: isspace_def)
  have "split_scan [] (w @ CHR '' '' # join_spaces ws) = split_scan [] w @ split_scan [] (join_spaces ws)"
    by (rule split_scan_at_space [OF sp])
  moreover from Cons.prems have "split_scan [] w = [w]" by (simp add: split_scan_word)
  moreover from Cons have "split_scan [] (join_spaces ws) = ws" by (simp add: split_ws_def)
  ultimately show ?case by (simp add: split_ws_def join_spaces_def)
qed

lemma normalise_alnum_text:
  "\<forall>c \<in> set str. is_ascii_lower c \<or> is_ascii_digit c \<or> c = CHR '' '' \<Longrightarrow>
   map re_sub_char (lower str) = str"
proof (induction str)
  case Nil
  then show ?case by (simp add: lower_def)
next
  case (Cons c cs)
  then have "re_sub_char (lower_char c) = c"
    using normalised_space by (auto simp: lower_char_alnum re_sub_char_alnum)
  with Cons show ?case by (simp add: lower_def)
qed

lemma extract_words_join:
  assumes "\<forall>w \<in> set ws. w \<noteq> [] \<and> (\<forall>c \<in> set w. is_ascii_lower c \<or> is_ascii_digit c)"
  shows "extract_words (join_spaces ws) = filter (\<lambda>w. length w > 2) ws"
proof -
  from assms have "\<forall>c \<in> set (join_spaces ws). is_ascii_lower c \<or> is_ascii_digit c \<or> c = CHR '' ''"
    by (auto simp: join_spaces_def)
  then have norm: "map re_sub_char (lower (join_spaces ws)) = join_spaces ws"
    by (rule normalise_alnum_text)
  from assms have "\<forall>w \<in> set ws. w \<noteq> [] \<and> (\<forall>c \<in> set w. \<not> isspace c)"
    using alnum_not_space by blast
  then have "split_ws (join_spaces ws) = ws" by (rule split_ws_join)
  with norm show ?thesis by (simp add: extract_words_def)
qed

text \<open>
  Claim C6. Word extraction is a function of the text alone. Its result is the list of the
  whitespace-separated tokens, longer than two characters, of the text after lower-casing
  and after replacing every character that is not an ASCII letter, an ASCII digit or
  whitespace by a space. Every extracted word is longer than two characters and made of
  lower-case ASCII letters and digits. For a text made of non-empty words of such
  characters, each followed by a space, the result is exactly the words longer than two
  characters, in their order and with their repetitions.
\<close>

theorem word_extraction:
  "extract_words str
     = filter (\<lambda>w. length w > 2) (spec_tokens (map re_sub_char (map lower_char str)))
   \<and> re_sub_char c = (if is_ascii_lower c \<or> is_ascii_upper c \<or> is_ascii_digit c \<or> isspace c
                       then c else CHR '' '')
   \<and> (w \<in> set (extract_words str) \<longrightarrow>
        length w > 2 \<and> (\<forall>c \<in> set w. is_ascii_lower c \<or> is_ascii_digit c))
   \<and> ((\<forall>w \<in> set ws. w \<noteq> [] \<and> (\<forall>c \<in> set w. is_ascii_lower c \<or> is_ascii_digit c)) \<longrightarrow>
        extract_words (join_spaces ws) = filter (\<lambda>w. length w > 2) ws)"
proof -
  have "extract_words str
     = filter (\<lambda>w. length w > 2) (spec_tokens (map re_sub_char (map lower_char str)))"
    by (simp add: extract_words_def lower_def split_ws_tokens)
  then show ?thesis
    using extract_words_chars [of w str] extract_words_join [of ws]
    by (simp add: re_sub_char_def)
qed

theorem word_extraction_witness:
  "extract_words ''Wi-Fi is DOWN in Room 12, fix it!!'' = [''down'', ''room'', ''fix'']
   \<and> list_all (\<lambda>w. w \<noteq> [] \<and> list_all (\<lambda>c. is_ascii_lower c \<or> is_ascii_digit c) w)
        [''wifi'', ''is'', ''down'', ''wifi'', ''404'']
   \<and> extract_words (join_spaces [''wifi'', ''is'', ''down'', ''wifi'', ''404''])
       = [''wifi'', ''down'', ''wifi'', ''404'']
   \<and> ''down'' \<in> set (extract_words ''Wi-Fi is DOWN in Room 12, fix it!!'')
   \<and> list_all (\<lambda>c. is_ascii_lower c \<or> is_ascii_digit c) ''down''"
proof -
  have ex: "extract_words ''Wi-Fi is DOWN in Room 12, fix it!!'' = [''down'', ''room'', ''fix'']"
    by code_simp
  have hyp: "list_all (\<lambda>w. w \<noteq> [] \<and> list_all (\<lambda>c. is_ascii_lower c \<or> is_ascii_digit c) w)
        [''wifi'', ''is'', ''down'', ''wifi'', ''404'']"
    by code_simp
  then have hyp': "\<forall>w \<in> set [''wifi'', ''is'', ''down'', ''wifi'', ''404''].
         w \<noteq> [] \<and> (\<forall>c \<in> set w. is_ascii_lower c \<or> is_ascii_digit c)"
    by (simp only: list_all_iff)
  have mem: "''down'' \<in> set (extract_words ''Wi-Fi is DOWN in Room 12, fix it!!'')"
    by (simp add: ex)
  from word_extraction [of "''Wi-Fi is DOWN in Room 12, fix it!!''" "CHR ''a''" "''down''"
      "[''wifi'', ''is'', ''down'', ''wifi'', ''404'']"] hyp' mem
  have "extract_words (join_spaces [''wifi'', ''is'', ''down'', ''wifi'', ''404''])
          = filter (\<lambda>w. length w > 2) [''wifi'', ''is'', ''down'', ''wifi'', ''404'']
      \<and> (\<forall>c \<in> set ''down''. is_ascii_lower c \<or> is_ascii_digit c)"
    by blast
  then have "extract_words (join_spaces [''wifi'', ''is'', ''down'', ''wifi'', ''404''])
          = [''wifi'', ''down'', ''wifi'', ''404'']
      \<and> list_all (\<lambda>c. is_ascii_lower c \<or> is_ascii_digit c) ''down''"
    by (simp add: list_all_iff)
  with ex hyp mem show ?thesis by blast
qed

section \<open>Selection of the labels\<close>

lemma max_from_mem: "max_from f b xs \<in> set (b # xs)"
  by (induction xs arbitrary: b) auto

lemma max_from_upper: "e \<in> set (b # xs) \<Longrightarrow> f e \<le> f (max_from f b xs)"
proof (induction xs arbitrary: b e)
  case Nil
  then show ?case by simp
next
  case (Cons x xs)
  have self: "f y \<le> f (max_from f y xs)" for y
    by (rule Cons.IH) simp
  show ?case
  proof (cases "f b < f x")
    case True
    then have m: "max_from f b (x # xs) = max_from f x xs" by simp
    from Cons.prems consider "e = b" | "e \<in> set (x # xs)" by auto
    then show ?thesis
    proof cases
      case 1
      from True self [of x] have "f b \<le> f (max_from f x xs)" by simp
      with 1 m show ?thesis by simp
    next
      case 2
      then have "f e \<le> f (max_from f x xs)" by (rule Cons.IH)
      with m show ?thesis by simp
    qed
  next
    case False
    then have m: "max_from f b (x # xs) = max_from f b xs" by simp
    from Cons.prems consider "e = x" | "e \<in> set (b # xs)" by auto
    then show ?thesis
    proof cases
      case 1
      from False self [of b] have "f x \<le> f (max_from f b xs)" by simp
      with 1 m show ?thesis by simp
    next
      case 2
      then have "f e \<le> f (max_from f b xs)" by (rule Cons.IH)
      with m show ?thesis by simp
    qed
  qed
qed

lemma max_from_first:
  "find (\<lambda>e. f e = f (max_from f b xs)) (b # xs) = Some (max_from f b xs)"
proof (induction xs arbitrary: b)
  case Nil
  show ?case by simp
next
  case (Cons x xs)
  show ?case
  proof (cases "f b < f x")
    case True
    define m where "m = max_from f x xs"
    from True have step: "max_from f b (x # xs) = m" by (simp add: m_def)
    have "f x \<le> f m" unfolding m_def by (rule max_from_upper) simp
    with True have neq: "f b \<noteq> f m" by auto
    have ih: "find (\<lambda>e. f e = f m) (x # xs) = Some m"
      unfolding m_def by (rule Cons.IH)
    from neq ih have "find (\<lambda>e. f e = f m) (b # x # xs) = Some m" by simp
    then show ?thesis by (simp only: step)
  next
    case False
    define m where "m = max_from f b xs"
    from False have step: "max_from f b (x # xs) = m" by (simp add: m_def)
    have ih: "find (\<lambda>e. f e = f m) (b # xs) = Some m"
      unfolding m_def by (rule Cons.IH)
    have le: "f b \<le> f m" unfolding m_def by (rule max_from_upper) simp
    have "find (\<lambda>e. f e = f m) (b # x # xs) = Some m"
    proof (cases "f b = f m")
      case True
      with ih have "b = m" by simp
      with True show ?thesis by simp
    next
      case neq: False
      with le False have nx: "f x \<noteq> f m" by auto
      from ih neq have "find (\<lambda>e. f e = f m) xs = Some m" by simp
      with neq nx show ?thesis by simp
    qed
    then show ?thesis by (simp only: step)
  qed
qed

lemma first_maximal_max_from:
  "first_maximal (x # xs) = Some (max_from snd x xs)"
proof -
  define m where "m = max_from snd x xs"
  have mem: "m \<in> set (x # xs)" unfolding m_def by (rule max_from_mem)
  have upper: "snd e \<le> snd m" if "e \<in> set (x # xs)" for e
    unfolding m_def using that by (rule max_from_upper)
  have first: "find (\<lambda>e. snd e = snd m) (x # xs) = Some m"
    unfolding m_def by (rule max_from_first)
  have "(\<forall>e' \<in> set (x # xs). snd e' \<le> snd e) \<longleftrightarrow> snd e = snd m"
    if "e \<in> set (x # xs)" for e
  proof
    assume "\<forall>e' \<in> set (x # xs). snd e' \<le> snd e"
    with mem have "snd m \<le> snd e" by blast
    with upper [OF that] show "snd e = snd m" by simp
  next
    assume eq: "snd e = snd m"
    show "\<forall>e' \<in> set (x # xs). snd e' \<le> snd e"
    proof
      fix e' assume "e' \<in> set (x # xs)"
      from upper [OF this] eq show "snd e' \<le> snd e" by simp
    qed
  qed
  then have "find (\<lambda>e. \<forall>e' \<in> set (x # xs). snd e' \<le> snd e) (x # xs)
      = find (\<lambda>e. snd e = snd m) (x # xs)"
    by (intro find_cong refl) blast
  with first show ?thesis by (simp only: first_maximal_def m_def)
qed

lemma select_category_spec: "select_category scores = Inr (spec_category scores)"
  by (cases scores)
     (simp_all add: select_category_def spec_category_def max_key_def py_max_def
        first_maximal_max_from, simp add: first_maximal_def)

lemma max_from_id_upper:
  "max_from id v vs = snd (max_from snd (k, v) kvs)" if "vs = map snd kvs"
  using that
proof (induction kvs arbitrary: k v vs)
  case Nil
  then show ?case by simp
next
  case (Cons e kvs)
  then show ?case by (cases e) auto
qed

lemma select_priority_spec:
  "select_priority scores = (if scores = [] then Inl ValueError else Inr (spec_priority scores))"
proof (cases scores)
  case Nil
  then show ?thesis by (simp add: select_priority_def py_max_def dict_values_def)
next
  case (Cons e rest)
  obtain k v where e: "e = (k, v)" by (cases e)
  have m: "max_from id v (map snd rest) = snd (max_from snd (k, v) rest)"
    by (rule max_from_id_upper) simp
  show ?thesis
    by (simp add: Cons e select_priority_def py_max_def dict_values_def m max_key_def
        spec_priority_def first_maximal_max_from)
qed

lemma boost_nonempty: "scores \<noteq> [] \<Longrightarrow> boost cond label z a scores \<noteq> []"
  by (simp add: boost_def dict_set_def)

lemma apply_priority_context_nonempty:
  "scores \<noteq> [] \<Longrightarrow> apply_priority_context ql ws c scores \<noteq> []"
  by (simp add: apply_priority_context_def Let_def boost_nonempty)

lemma fold_dict_set_nonempty:
  "t \<noteq> [] \<or> acc \<noteq> [] \<Longrightarrow> fold (\<lambda>(k, v) d. dict_set d k (g v)) t acc \<noteq> []"
proof (induction t arbitrary: acc)
  case Nil
  then show ?case by simp
next
  case (Cons e t)
  obtain k v where e: "e = (k, v)" by (cases e)
  have "dict_set acc k (g v) \<noteq> []" by (simp add: dict_set_def)
  then show ?case using Cons.IH [of "dict_set acc k (g v)"] by (simp add: e)
qed

lemma score_priorities_nonempty: "table \<noteq> [] \<Longrightarrow> score_priorities table ws \<noteq> []"
  unfolding score_priorities_def by (rule fold_dict_set_nonempty) simp

lemma all_zero_first:
  "scores \<noteq> [] \<Longrightarrow> \<forall>e \<in> set scores. snd e = snd (hd scores) \<Longrightarrow> first_maximal scores = Some (hd scores)"
  by (cases scores) (auto simp: first_maximal_def)


text \<open>
  Claim C4, as amended. When no shortcut rule matches, the category returned is the label
  of the first entry, in the order of the adjusted score table, whose score no entry
  exceeds; it is Technical by default only when that table has no entry, and when all
  scores are equal (all zero, for instance) it is the first label of the table, which is
  Technical for the default tables. The priority returned is the label of the first entry
  of maximal adjusted score when that score is greater than zero, and medium otherwise;
  with a non-empty priority table the adjusted table is non-empty, so a pair is returned.
  With the default tables the empty text is classified (Technical, medium).
\<close>

theorem selection:
  "(rule_based_classification (lower q) (extract_words q) = None \<longrightarrow>
      classify_user_query s q =
        (let words = extract_words q;
             category_scores = apply_context_rules (lower q) words
                                 (score_categories (category_patterns s) words);
             cat = spec_category category_scores;
             priority_scores = apply_priority_context (lower q) words cat
                                 (score_priorities (priority_patterns s) words)
         in if priority_scores = [] then Inl ValueError
            else Inr (cat, spec_priority priority_scores)))
   \<and> (priority_patterns s \<noteq> [] \<longrightarrow>
        apply_priority_context ql ws c (score_priorities (priority_patterns s) ws) \<noteq> [])
   \<and> (scores \<noteq> [] \<and> (\<forall>e \<in> set scores. snd e = snd (hd scores)) \<longrightarrow>
        spec_category scores = fst (hd scores))
   \<and> classify_on (init True NotFound) '''' = Inr (''Technical'', ''medium'')"
proof -
  have a: "classify_user_query s q =
        (let words = extract_words q;
             category_scores = apply_context_rules (lower q) words
                                 (score_categories (category_patterns s) words);
             cat = spec_category category_scores;
             priority_scores = apply_priority_context (lower q) words cat
                                 (score_priorities (priority_patterns s) words)
         in if priority_scores = [] then Inl ValueError
            else Inr (cat, spec_priority priority_scores))"
    if "rule_based_classification (lower q) (extract_words q) = None"
    unfolding classify_scoring_path [OF that, of s] select_category_spec
      select_priority_spec Let_def
    by simp
  have b: "apply_priority_context ql ws c (score_priorities (priority_patterns s) ws) \<noteq> []"
    if "priority_patterns s \<noteq> []"
    using that by (intro apply_priority_context_nonempty score_priorities_nonempty)
  have c: "spec_category scores = fst (hd scores)"
    if "scores \<noteq> [] \<and> (\<forall>e \<in> set scores. snd e = snd (hd scores))"
  proof -
    from that have "first_maximal scores = Some (hd scores)"
      by (intro all_zero_first) blast+
    then show ?thesis by (simp add: spec_category_def)
  qed
  have d: "classify_on (init True NotFound) '''' = Inr (''Technical'', ''medium'')"
    by code_simp
  from a b c d show ?thesis by blast
qed

theorem selection_witness:
  "init True NotFound = Inr (setup_default_patterns new_service)
   \<and> rule_based_classification (lower ''the projector is not working'')
       (extract_words ''the projector is not working'') = None
   \<and> priority_patterns (setup_default_patterns new_service) \<noteq> []
   \<and> classify_user_query (setup_default_patterns new_service) ''the projector is not working''
       = Inr (''Maintenance'', ''urgent'')
   \<and> spec_category [(''Academic'', 0), (''Technical'', 0)] = ''Academic''
   \<and> apply_priority_context [] [] [] (score_priorities (priority_patterns (setup_default_patterns new_service)) []) \<noteq> []"
proof -
  have none: "rule_based_classification (lower ''the projector is not working'')
       (extract_words ''the projector is not working'') = None"
    by code_simp
  have ne: "priority_patterns (setup_default_patterns new_service) \<noteq> []"
    by code_simp
  have r: "classify_user_query (setup_default_patterns new_service) ''the projector is not working''
       = Inr (''Maintenance'', ''urgent'')"
    by code_simp
  have z: "[(''Academic'', 0::rat), (''Technical'', 0)] \<noteq> []
     \<and> (\<forall>e \<in> set [(''Academic'', 0::rat), (''Technical'', 0)].
           snd e = snd (hd [(''Academic'', 0::rat), (''Technical'', 0)]))"
    by simp
  from selection [of "''the projector is not working''" "setup_default_patterns new_service" "[]" "[]" "[]"
      "[(''Academic'', 0), (''Technical'', 0)]"] none ne r z init_default(1)
  show ?thesis by simp
qed

text \<open>With a corpus whose first category label is Academic, every category score of the
  empty text is zero and the category returned is Academic, not Technical.\<close>

theorem empty_text_not_technical:
  "map_sum id (\<lambda>s. score_categories (category_patterns s) (extract_words ''''))
     (init True (Lines [csv_header,
        csv_line ''exam exam results'' ''Academic'' ''high'',
        csv_line ''wifi wifi down'' ''Technical'' ''urgent'']))
     = Inr [(''Academic'', 0), (''Technical'', 0)]
   \<and> classify_on (init True (Lines [csv_header,
        csv_line ''exam exam results'' ''Academic'' ''high'',
        csv_line ''wifi wifi down'' ''Technical'' ''urgent''])) ''''
     = Inr (''Academic'', ''medium'')"
  by code_simp

section \<open>The pattern builder\<close>

lemma set_first_seen [simp]: "set (first_seen xs) = set xs"
  by (induction xs) auto

lemma distinct_first_seen [simp]: "distinct (first_seen xs)"
  by (induction xs) auto

lemma first_seen_snoc:
  "first_seen (xs @ [x]) = (if x \<in> set xs then first_seen xs else first_seen xs @ [x])"
  by (induction xs) auto

lemma map_of_graph:
  "map_of (map (\<lambda>x. (x, g x)) L) k = (if k \<in> set L then Some (g k) else None)"
  by (induction L) auto

lemma update_graph:
  "k \<in> set L \<Longrightarrow> distinct L \<Longrightarrow> AList.update k v (map (\<lambda>x. (x, g x)) L) = map (\<lambda>x. (x, (g(k := v)) x)) L"
  by (induction L) auto

lemma update_graph_fresh:
  "k \<notin> set L \<Longrightarrow> AList.update k v (map (\<lambda>x. (x, g x)) L) = map (\<lambda>x. (x, g x)) L @ [(k, v)]"
  by (induction L) auto

lemma dict_get_word_freqs: "dict_get (word_freqs ws) w 0 = count_list ws w"
  by (simp add: dict_get_def word_freqs_def map_of_graph)

lemma bump_word_freqs:
  "dict_set (word_freqs ws) w (dict_get (word_freqs ws) w 0 + 1) = word_freqs (ws @ [w])"
proof -
  have "dict_set (word_freqs ws) w (count_list ws w + 1) = word_freqs (ws @ [w])"
  proof (cases "w \<in> set ws")
    case True
    then show ?thesis
      by (simp add: dict_set_def word_freqs_def update_graph first_seen_snoc)
  next
    case False
    then show ?thesis
      by (auto simp: dict_set_def word_freqs_def update_graph_fresh first_seen_snoc)
  qed
  then show ?thesis by (simp only: dict_get_word_freqs)
qed

lemma count_word_counts_of:
  assumes "l \<in> set L" and "distinct L"
  shows "count_word (counts_of S L) l w = counts_of (S(l := S l @ [w])) L"
proof -
  from assms have get: "dict_get (counts_of S L) l [] = word_freqs (S l)"
    by (simp add: dict_get_def counts_of_def map_of_graph)
  have "count_word (counts_of S L) l w
      = AList.update l (word_freqs (S l @ [w])) (map (\<lambda>l. (l, word_freqs (S l))) L)"
    unfolding count_word_def Let_def get bump_word_freqs
    by (simp add: dict_set_def counts_of_def)
  also have "\<dots> = map (\<lambda>x. (x, ((\<lambda>l. word_freqs (S l))(l := word_freqs (S l @ [w]))) x)) L"
    by (rule update_graph [OF assms])
  also have "\<dots> = counts_of (S(l := S l @ [w])) L"
    by (simp add: counts_of_def)
  finally show ?thesis .
qed

lemma fold_count_word:
  "l \<in> set L \<Longrightarrow> distinct L \<Longrightarrow>
   fold (\<lambda>w lw. count_word lw l w) ws (counts_of S L) = counts_of (S(l := S l @ ws)) L"
proof (induction ws arbitrary: S)
  case Nil
  then show ?case by simp
next
  case (Cons w ws)
  let ?S = "S(l := S l @ [w])"
  have "fold (\<lambda>w lw. count_word lw l w) (w # ws) (counts_of S L)
      = fold (\<lambda>w lw. count_word lw l w) ws (counts_of ?S L)"
    by (simp add: count_word_counts_of [OF Cons.prems])
  also have "\<dots> = counts_of (?S(l := ?S l @ ws)) L"
    by (rule Cons.IH [OF Cons.prems])
  also have "?S(l := ?S l @ ws) = S(l := S l @ w # ws)" by simp
  finally show ?case .
qed

lemma ensure_label_counts_of:
  "(l \<notin> set L \<Longrightarrow> S l = []) \<Longrightarrow>
   ensure_label (counts_of S L) l = counts_of S (if l \<in> set L then L else L @ [l])"
  by (auto simp: ensure_label_def dict_keys_def counts_of_def dict_set_def comp_def
      update_graph_fresh word_freqs_def)

lemma fold_pair:
  "fold (\<lambda>w (a, b). (F w a, G w b)) ws (a, b) = (fold F ws a, fold G ws b)"
  by (induction ws arbitrary: a b) auto

lemma label_words_snoc:
  "label_words label_of l (xs @ [x])
     = label_words label_of l xs @ (if label_of x = l then extract_words (query x) else [])"
  by (simp add: label_words_def)

lemma label_words_unseen: "l \<notin> label_of ` set xs \<Longrightarrow> label_words label_of l xs = []"
  by (auto simp: label_words_def filter_empty_conv)

lemma count_one_label:
  fixes label_of :: "training_sample \<Rightarrow> string"
  defines "L xs \<equiv> first_seen (map label_of xs)"
  shows "fold (\<lambda>w lw. count_word lw (label_of x) w) (extract_words (query x))
           (ensure_label (counts_of (\<lambda>l. label_words label_of l xs) (L xs)) (label_of x))
         = counts_of (\<lambda>l. label_words label_of l (xs @ [x])) (L (xs @ [x]))"
proof -
  let ?S = "\<lambda>l. label_words label_of l xs"
  let ?l = "label_of x"
  let ?L' = "if ?l \<in> set (L xs) then L xs else L xs @ [?l]"
  have e: "ensure_label (counts_of ?S (L xs)) ?l = counts_of ?S ?L'"
    by (rule ensure_label_counts_of) (simp add: L_def label_words_unseen)
  have mem: "?l \<in> set ?L'" by simp
  have dist: "distinct ?L'" by (simp add: L_def)
  have L': "?L' = L (xs @ [x])" by (simp add: L_def first_seen_snoc)
  have S': "?S(?l := ?S ?l @ extract_words (query x)) = (\<lambda>l. label_words label_of l (xs @ [x]))"
    by (auto simp: label_words_snoc fun_eq_iff)
  have "fold (\<lambda>w lw. count_word lw ?l w) (extract_words (query x))
           (ensure_label (counts_of ?S (L xs)) ?l)
      = fold (\<lambda>w lw. count_word lw ?l w) (extract_words (query x)) (counts_of ?S ?L')"
    by (simp only: e)
  also have "\<dots> = counts_of (?S(?l := ?S ?l @ extract_words (query x))) ?L'"
    by (rule fold_count_word [OF mem dist])
  also have "\<dots> = counts_of (\<lambda>l. label_words label_of l (xs @ [x])) (L (xs @ [x]))"
    by (simp only: S' L')
  finally show ?thesis .
qed

lemma count_item_counts_of:
  "count_item x
     (counts_of (\<lambda>l. label_words category l xs) (first_seen (map category xs)),
      counts_of (\<lambda>l. label_words priority l xs) (first_seen (map priority xs)))
   = (counts_of (\<lambda>l. label_words category l (xs @ [x])) (first_seen (map category (xs @ [x]))),
      counts_of (\<lambda>l. label_words priority l (xs @ [x])) (first_seen (map priority (xs @ [x]))))"
  unfolding count_item_def Let_def fst_conv snd_conv fold_pair
  by (simp only: count_one_label)

lemma fold_count_item:
  "fold count_item samples ([], [])
   = (counts_of (\<lambda>l. label_words category l samples) (first_seen (map category samples)),
      counts_of (\<lambda>l. label_words priority l samples) (first_seen (map priority samples)))"
proof (induction samples rule: rev_induct)
  case Nil
  show ?case by (simp add: counts_of_def)
next
  case (snoc x xs)
  then show ?case by (simp only: fold_append comp_apply fold_simps count_item_counts_of)
qed


lemma extract_top_counts_of:
  assumes "distinct L"
  shows "extract_top n (counts_of S L) = map (\<lambda>l. (l, top_words n (word_freqs (S l)))) L"
proof -
  have keys: "map fst (counts_of S L) = L"
    by (simp add: counts_of_def comp_def)
  have "fold (\<lambda>(k, v) d. dict_set d k (top_words n v)) (counts_of S L) []
      = [] @ map (\<lambda>(k, v). (k, top_words n v)) (counts_of S L)"
    by (rule fold_dict_set_fresh) (simp_all add: keys assms)
  then show ?thesis by (simp add: extract_top_def counts_of_def comp_def)
qed

lemma insort_key_map:
  "insort_key f (h x) (map h xs) = map h (insort_key (\<lambda>y. f (h y)) x xs)"
  by (induction xs) auto

lemma sort_key_map: "sort_key f (map h xs) = map h (sort_key (\<lambda>y. f (h y)) xs)"
  by (induction xs) (simp_all add: insort_key_map)

lemma filter_take_sorted:
  "sorted (map f xs) \<Longrightarrow>
   filter (\<lambda>x. f x < c) (take n xs) = take n (filter (\<lambda>x. f x < c) xs)"
proof (induction xs arbitrary: n)
  case Nil
  then show ?case by simp
next
  case (Cons x xs)
  show ?case
  proof (cases n)
    case 0
    then show ?thesis by simp
  next
    case (Suc m)
    from Cons.prems have sorted: "sorted (map f xs)" and le: "\<forall>y \<in> set xs. f x \<le> f y"
      by auto
    show ?thesis
    proof (cases "f x < c")
      case True
      with Suc Cons.IH [OF sorted, of m] show ?thesis by simp
    next
      case False
      with le have "\<forall>y \<in> set xs. \<not> f y < c" by force
      then have "filter (\<lambda>x. f x < c) xs = []" and "filter (\<lambda>x. f x < c) (take m xs) = []"
        by (auto simp: filter_empty_conv dest: in_set_takeD)
      with False Suc show ?thesis by simp
    qed
  qed
qed

lemma top_words_spec: "top_words n (word_freqs ws) = spec_top n ws"
proof -
  let ?f = "\<lambda>w. - int (count_list ws w)"
  let ?X = "sort_key ?f (first_seen ws)"
  have s: "sorted_desc (word_freqs ws) = map (\<lambda>w. (w, count_list ws w)) ?X"
    by (simp add: sorted_desc_def word_freqs_def sort_key_map)
  have "top_words n (word_freqs ws) = filter (\<lambda>w. count_list ws w > 1) (take n ?X)"
    by (simp add: top_words_def s take_map filter_map comp_def)
  also have "\<dots> = filter (\<lambda>w. ?f w < - 1) (take n ?X)"
    by (rule filter_cong) auto
  also have "\<dots> = take n (filter (\<lambda>w. ?f w < - 1) ?X)"
    by (rule filter_take_sorted) simp
  also have "filter (\<lambda>w. ?f w < - 1) ?X = filter (\<lambda>w. count_list ws w > 1) ?X"
    by (rule filter_cong) auto
  finally show ?thesis by (simp add: spec_top_def)
qed

lemma build_patterns_spec:
  assumes "training_data s \<noteq> []"
  shows "category_patterns (fst (build_patterns out s)) = spec_patterns 50 category (training_data s)"
    and "priority_patterns (fst (build_patterns out s)) = spec_patterns 30 priority (training_data s)"
  using assms
  by (simp_all add: build_patterns_def fold_count_item extract_top_counts_of top_words_spec
      spec_patterns_def Let_def)


lemma spec_top_length: "length (spec_top n ws) \<le> n"
  by (simp add: spec_top_def)

lemma spec_top_counts: "w \<in> set (spec_top n ws) \<Longrightarrow> count_list ws w > 1"
  by (auto simp: spec_top_def dest: in_set_takeD)

lemma spec_top_distinct: "distinct (spec_top n ws)"
  by (simp add: spec_top_def)

lemma candidates_sorted:
  "sorted_wrt (\<lambda>a b. count_list ws b \<le> count_list ws a)
     (filter (\<lambda>w. count_list ws w > 1) (sort_key (\<lambda>w. - int (count_list ws w)) (first_seen ws)))"
proof -
  have "sorted (map (\<lambda>w. - int (count_list ws w))
          (sort_key (\<lambda>w. - int (count_list ws w)) (first_seen ws)))"
    by simp
  then have "sorted_wrt (\<lambda>a b. count_list ws b \<le> count_list ws a)
          (sort_key (\<lambda>w. - int (count_list ws w)) (first_seen ws))"
    by (simp add: sorted_map)
  then show ?thesis by (rule sorted_wrt_filter)
qed

lemma spec_top_sorted:
  "sorted_wrt (\<lambda>a b. count_list ws b \<le> count_list ws a) (spec_top n ws)"
  unfolding spec_top_def using candidates_sorted by (rule sorted_wrt_take)

lemma spec_top_best:
  assumes "count_list ws w > 1" and "w \<notin> set (spec_top n ws)"
  shows "length (spec_top n ws) = n \<and> (\<forall>v \<in> set (spec_top n ws). count_list ws w \<le> count_list ws v)"
proof -
  define X where
    "X = filter (\<lambda>w. count_list ws w > 1) (sort_key (\<lambda>w. - int (count_list ws w)) (first_seen ws))"
  have top: "spec_top n ws = take n X" by (simp add: spec_top_def X_def)
  have "w \<in> set ws"
  proof (rule ccontr)
    assume "w \<notin> set ws"
    then have "count_list ws w = 0" by (rule count_notin)
    with assms(1) show False by simp
  qed
  with assms(1) have "w \<in> set X" by (simp add: X_def)
  then have "w \<in> set (take n X) \<union> set (drop n X)"
    by (metis append_take_drop_id set_append)
  with assms(2) top have later: "w \<in> set (drop n X)" by simp
  then have "n < length X" by (cases "n < length X") auto
  then have len: "length (take n X) = n" by simp
  have "sorted_wrt (\<lambda>a b. count_list ws b \<le> count_list ws a) X"
    using candidates_sorted [of ws] by (simp add: X_def)
  then have "sorted_wrt (\<lambda>a b. count_list ws b \<le> count_list ws a) (take n X @ drop n X)"
    by (simp only: append_take_drop_id)
  then have "\<forall>v \<in> set (take n X). \<forall>u \<in> set (drop n X). count_list ws u \<le> count_list ws v"
    unfolding sorted_wrt_append by blast
  with later have "\<forall>v \<in> set (take n X). count_list ws w \<le> count_list ws v"
    by blast
  with len top show ?thesis by simp
qed

lemma spec_top_ties:
  assumes "k > 1"
  shows "filter (\<lambda>w. count_list ws w = k) (spec_top n ws)
     = take (length (filter (\<lambda>w. count_list ws w = k) (spec_top n ws)))
         (filter (\<lambda>w. count_list ws w = k) (first_seen ws))"
proof -
  let ?f = "\<lambda>w. - int (count_list ws w)"
  define X where "X = filter (\<lambda>w. count_list ws w > 1) (sort_key ?f (first_seen ws))"
  let ?Q = "\<lambda>w. count_list ws w = k"
  have top: "spec_top n ws = take n X" by (simp add: spec_top_def X_def)
  have "filter ?Q X = filter ?Q (sort_key ?f (first_seen ws))"
    using assms by (auto simp: X_def intro: filter_cong)
  also have "\<dots> = filter (\<lambda>w. ?f w = - int k) (sort_key ?f (first_seen ws))"
    by (rule filter_cong) auto
  also have "\<dots> = filter (\<lambda>w. ?f w = - int k) (first_seen ws)"
    by (rule sort_key_stable)
  also have "\<dots> = filter ?Q (first_seen ws)"
    by (rule filter_cong) auto
  finally have stable: "filter ?Q X = filter ?Q (first_seen ws)" .
  have "filter ?Q (take n X @ drop n X) = filter ?Q (take n X) @ filter ?Q (drop n X)"
    by (rule filter_append)
  then have "filter ?Q (first_seen ws) = filter ?Q (take n X) @ filter ?Q (drop n X)"
    by (simp only: append_take_drop_id stable)
  then show ?thesis by (simp add: top)
qed

lemma table_caps:
  "(l, pats) \<in> set (category_patterns (fst (build_patterns out s))) \<Longrightarrow> length pats \<le> 50"
  "(l, pats) \<in> set (priority_patterns (fst (build_patterns out s))) \<Longrightarrow> length pats \<le> 30"
proof -
  show "length pats \<le> 50" if "(l, pats) \<in> set (category_patterns (fst (build_patterns out s)))"
  proof (cases "training_data s = []")
    case True
    with that show ?thesis
      by (auto simp: build_patterns_def setup_default_patterns_def default_category_patterns_def)
  next
    case False
    with that show ?thesis
      by (auto simp: build_patterns_spec spec_patterns_def spec_top_length)
  qed
  show "length pats \<le> 30" if "(l, pats) \<in> set (priority_patterns (fst (build_patterns out s)))"
  proof (cases "training_data s = []")
    case True
    with that show ?thesis
      by (auto simp: build_patterns_def setup_default_patterns_def default_priority_patterns_def)
  next
    case False
    with that show ?thesis
      by (auto simp: build_patterns_spec spec_patterns_def spec_top_length)
  qed
qed

text \<open>
  Claim C7. For a non-empty list of training samples the builder yields, for the labels in
  the order they first occur, the top 50 (categories) or top 30 (priorities) words of the
  label: of the words counted under the label, those counted more than once, the more
  frequent first, equally frequent words in the order they were first counted, cut after
  50 or 30 entries. Such a list is never longer than its cap, has no repetition, holds only
  words counted more than once, is in descending order of frequency; a word counted more
  than once that is left out finds the list full of words at least as frequent; and the
  listed words of one frequency are an initial part of the words of that frequency in
  first-counted order. No list of a built table, default tables included, exceeds its cap.
\<close>

theorem pattern_builder:
  "(training_data s \<noteq> [] \<longrightarrow>
      category_patterns (fst (build_patterns out s)) = spec_patterns 50 category (training_data s)
      \<and> priority_patterns (fst (build_patterns out s)) = spec_patterns 30 priority (training_data s))
   \<and> (\<forall>(l, pats) \<in> set (category_patterns (fst (build_patterns out s))). length pats \<le> 50)
   \<and> (\<forall>(l, pats) \<in> set (priority_patterns (fst (build_patterns out s))). length pats \<le> 30)
   \<and> length (spec_top n ws) \<le> n
   \<and> distinct (spec_top n ws)
   \<and> (\<forall>v \<in> set (spec_top n ws). count_list ws v > 1)
   \<and> sorted_wrt (\<lambda>a b. count_list ws b \<le> count_list ws a) (spec_top n ws)
   \<and> (count_list ws w > 1 \<and> w \<notin> set (spec_top n ws) \<longrightarrow>
        length (spec_top n ws) = n
        \<and> (\<forall>v \<in> set (spec_top n ws). count_list ws w \<le> count_list ws v))
   \<and> (k > 1 \<longrightarrow>
        filter (\<lambda>v. count_list ws v = k) (spec_top n ws)
          = take (length (filter (\<lambda>v. count_list ws v = k) (spec_top n ws)))
              (filter (\<lambda>v. count_list ws v = k) (first_seen ws)))"
proof -
  have a: "category_patterns (fst (build_patterns out s)) = spec_patterns 50 category (training_data s)
      \<and> priority_patterns (fst (build_patterns out s)) = spec_patterns 30 priority (training_data s)"
    if "training_data s \<noteq> []"
    using build_patterns_spec [OF that] by simp
  have b: "\<forall>(l, pats) \<in> set (category_patterns (fst (build_patterns out s))). length pats \<le> 50"
    using table_caps(1) [of _ _ out s] by blast
  have c: "\<forall>(l, pats) \<in> set (priority_patterns (fst (build_patterns out s))). length pats \<le> 30"
    using table_caps(2) [of _ _ out s] by blast
  have d: "\<forall>v \<in> set (spec_top n ws). count_list ws v > 1"
    using spec_top_counts by blast
  have e: "length (spec_top n ws) = n
        \<and> (\<forall>v \<in> set (spec_top n ws). count_list ws w \<le> count_list ws v)"
    if "count_list ws w > 1 \<and> w \<notin> set (spec_top n ws)"
    using that spec_top_best [of ws w n] by blast
  have f: "filter (\<lambda>v. count_list ws v = k) (spec_top n ws)
          = take (length (filter (\<lambda>v. count_list ws v = k) (spec_top n ws)))
              (filter (\<lambda>v. count_list ws v = k) (first_seen ws))"
    if "k > 1"
    using that by (rule spec_top_ties)
  from a b c d e f spec_top_length [of n ws] spec_top_distinct [of n ws] spec_top_sorted [of ws n]
  show ?thesis by blast
qed

theorem pattern_builder_witness:
  "training_data (fst (load_csv_data True (Lines [csv_header,
       csv_line ''printer printer jam'' ''Technical'' ''high'',
       csv_line ''printer toner offline printer printer'' ''Technical'' ''high'',
       csv_line ''toner'' ''Technical'' ''low'']) new_service)) \<noteq> []
   \<and> init True (Lines [csv_header,
       csv_line ''printer printer jam'' ''Technical'' ''high'',
       csv_line ''printer toner offline printer printer'' ''Technical'' ''high'',
       csv_line ''toner'' ''Technical'' ''low''])
     = Inr (fst (build_patterns True (fst (load_csv_data True (Lines [csv_header,
       csv_line ''printer printer jam'' ''Technical'' ''high'',
       csv_line ''printer toner offline printer printer'' ''Technical'' ''high'',
       csv_line ''toner'' ''Technical'' ''low'']) new_service))))
   \<and> map_sum id category_patterns (init True (Lines [csv_header,
       csv_line ''printer printer jam'' ''Technical'' ''high'',
       csv_line ''printer toner offline printer printer'' ''Technical'' ''high'',
       csv_line ''toner'' ''Technical'' ''low'']))
     = Inr [(''Technical'', [''printer'', ''toner''])]
   \<and> map_sum id priority_patterns (init True (Lines [csv_header,
       csv_line ''printer printer jam'' ''Technical'' ''high'',
       csv_line ''printer toner offline printer printer'' ''Technical'' ''high'',
       csv_line ''toner'' ''Technical'' ''low'']))
     = Inr [(''high'', [''printer'']), (''low'', [])]
   \<and> count_list [''aaa'', ''bbb'', ''ccc'', ''bbb'', ''aaa''] ''bbb'' > 1
   \<and> ''bbb'' \<notin> set (spec_top 1 [''aaa'', ''bbb'', ''ccc'', ''bbb'', ''aaa''])
   \<and> length (spec_top 1 [''aaa'', ''bbb'', ''ccc'', ''bbb'', ''aaa'']) = 1
   \<and> spec_top 5 [''aaa'', ''bbb'', ''ccc'', ''bbb'', ''aaa''] = [''aaa'', ''bbb'']"
proof -
  define F where "F = Lines [csv_header,
       csv_line ''printer printer jam'' ''Technical'' ''high'',
       csv_line ''printer toner offline printer printer'' ''Technical'' ''high'',
       csv_line ''toner'' ''Technical'' ''low'']"
  define S where "S = fst (load_csv_data True F new_service)"
  define W where "W = [''aaa'', ''bbb'', ''ccc'', ''bbb'', ''aaa'']"
  have ne: "training_data S \<noteq> []"
    unfolding S_def F_def by code_simp
  have i: "init True F = Inr (fst (build_patterns True S))"
    unfolding S_def F_def by (rule init_Lines_printable)
  have c: "spec_patterns 50 category (training_data S)
      = [(''Technical'', [''printer'', ''toner''])]"
    unfolding S_def F_def by code_simp
  have p: "spec_patterns 30 priority (training_data S)
      = [(''high'', [''printer'']), (''low'', [])]"
    unfolding S_def F_def by code_simp
  have cnt: "count_list W ''bbb'' > 1" unfolding W_def by code_simp
  have out: "''bbb'' \<notin> set (spec_top 1 W)" unfolding W_def by code_simp
  have top: "spec_top 5 W = [''aaa'', ''bbb'']" unfolding W_def by code_simp
  from pattern_builder [where s = S and out = True and n = 1 and ws = W and w = "''bbb''"
      and k = 2] ne cnt out
  have "category_patterns (fst (build_patterns True S)) = [(''Technical'', [''printer'', ''toner''])]
     \<and> priority_patterns (fst (build_patterns True S)) = [(''high'', [''printer'']), (''low'', [])]
     \<and> length (spec_top 1 W) = 1"
    by (simp add: c p)
  then have "map_sum id category_patterns (init True F) = Inr [(''Technical'', [''printer'', ''toner''])]
     \<and> map_sum id priority_patterns (init True F) = Inr [(''high'', [''printer'']), (''low'', [])]
     \<and> length (spec_top 1 W) = 1"
    by (simp add: i)
  with ne i cnt out top show ?thesis
    unfolding F_def S_def W_def by blast
qed

section \<open>Totality of the classification\<close>

lemma classify_scoring_spec:
  assumes "rule_based_classification (lower q) (extract_words q) = None"
  shows "classify_user_query s q =
        (let words = extract_words q;
             category_scores = apply_context_rules (lower q) words
                                 (score_categories (category_patterns s) words);
             cat = spec_category category_scores;
             priority_scores = apply_priority_context (lower q) words cat
                                 (score_priorities (priority_patterns s) words)
         in if priority_scores = [] then Inl ValueError
            else Inr (cat, spec_priority priority_scores))"
  unfolding classify_scoring_path [OF assms, of s] select_category_spec
    select_priority_spec Let_def
  by simp

lemma rule_results_valid:
  "rule_based_classification ql ws = Some (c, p) \<Longrightarrow>
   c \<in> set valid_categories \<and> p \<in> set valid_priorities"
  unfolding rule_based_classification_def valid_categories_def valid_priorities_def
  by (simp split: if_splits)

lemma fold_dict_set_keys:
  "fst ` set (fold (\<lambda>(k, v) d. dict_set d k (g v)) t acc) = fst ` set t \<union> fst ` set acc"
proof (induction t arbitrary: acc)
  case Nil
  then show ?case by simp
next
  case (Cons e t)
  obtain k v where e: "e = (k, v)" by (cases e)
  have "fst ` set (dict_set acc k (g v)) = {k} \<union> fst ` set acc"
    by (simp add: dict_set_def dom_update)
  with Cons.IH [of "dict_set acc k (g v)"] show ?case by (auto simp: e)
qed

lemma boost_keys: "fst ` set (boost cond label z a d) \<subseteq> insert label (fst ` set d)"
  by (auto simp: boost_def dict_set_def dom_update)

lemma apply_context_rules_keys:
  "fst ` set (apply_context_rules ql ws d) \<subseteq> fst ` set d \<union> set valid_categories"
proof -
  have step: "fst ` set (boost cond label z a d') \<subseteq> fst ` set d \<union> set valid_categories"
    if "fst ` set d' \<subseteq> fst ` set d \<union> set valid_categories" and "label \<in> set valid_categories"
    for cond label and z a :: rat and d'
    using boost_keys [of cond label z a d'] that by blast
  show ?thesis
    unfolding apply_context_rules_def Let_def
    by (intro step subset_refl Un_upper1) (simp_all add: valid_categories_def)
qed

lemma apply_priority_context_keys:
  "fst ` set (apply_priority_context ql ws c d) \<subseteq> fst ` set d \<union> set valid_priorities"
proof -
  have step: "fst ` set (boost cond label z a d') \<subseteq> fst ` set d \<union> set valid_priorities"
    if "fst ` set d' \<subseteq> fst ` set d \<union> set valid_priorities" and "label \<in> set valid_priorities"
    for cond label and z a :: int and d'
    using boost_keys [of cond label z a d'] that by blast
  show ?thesis
    unfolding apply_priority_context_def Let_def
    by (intro step subset_refl Un_upper1) (simp_all add: valid_priorities_def)
qed

lemma first_maximal_mem: "first_maximal d = Some e \<Longrightarrow> e \<in> set d"
  by (auto simp: first_maximal_def find_Some_iff)

lemma spec_category_keys: "spec_category d \<in> insert ''Technical'' (fst ` set d)"
  by (auto simp: spec_category_def image_iff split: option.splits dest!: first_maximal_mem)
     force

lemma spec_priority_keys: "spec_priority d \<in> insert ''medium'' (fst ` set d)"
  by (auto simp: spec_priority_def image_iff split: option.splits dest!: first_maximal_mem)
     force

lemma score_categories_keys: "fst ` set (score_categories table ws) = fst ` set table"
  unfolding score_categories_def by (simp add: fold_dict_set_keys)

lemma score_priorities_keys: "fst ` set (score_priorities table ws) = fst ` set table"
  unfolding score_priorities_def by (simp add: fold_dict_set_keys)

lemma spec_patterns_keys: "map fst (spec_patterns n label_of samples) = first_seen (map label_of samples)"
  by (simp add: spec_patterns_def comp_def)

lemma init_tables:
  assumes "init out file = Inr s" and "training_data s \<noteq> []"
  shows "category_patterns s = spec_patterns 50 category (training_data s)
     \<and> priority_patterns s = spec_patterns 30 priority (training_data s)"
proof -
  let ?s0 = "fst (load_csv_data out file new_service)"
  from init_Inr [OF assms(1)] assms(2)
  have s: "s = fst (build_patterns out ?s0)" and td: "training_data s = training_data ?s0"
    and ne: "training_data ?s0 \<noteq> []"
    by simp_all
  from build_patterns_spec [OF ne, of out] show ?thesis
    by (simp only: s [symmetric] td [symmetric])
qed

lemma init_keys:
  assumes "init out file = Inr s"
  shows "fst ` set (category_patterns s)
     = (if training_data s = [] then set valid_categories else category ` set (training_data s))"
    and "fst ` set (priority_patterns s)
     = (if training_data s = [] then set valid_priorities else priority ` set (training_data s))"
proof -
  have keys: "fst ` set (spec_patterns n label_of samples) = label_of ` set samples"
    for n label_of samples
    using spec_patterns_keys [of n label_of samples]
    by (metis list.set_map set_first_seen)
  show "fst ` set (category_patterns s)
     = (if training_data s = [] then set valid_categories else category ` set (training_data s))"
  proof (cases "training_data s = []")
    case True
    with init_no_samples [OF assms True] show ?thesis
      by (auto simp: default_category_patterns_def valid_categories_def)
  next
    case False
    with init_tables [OF assms False] show ?thesis by (simp add: keys)
  qed
  show "fst ` set (priority_patterns s)
     = (if training_data s = [] then set valid_priorities else priority ` set (training_data s))"
  proof (cases "training_data s = []")
    case True
    with init_no_samples [OF assms True] show ?thesis
      by (auto simp: default_priority_patterns_def valid_priorities_def)
  next
    case False
    with init_tables [OF assms False] show ?thesis by (simp add: keys)
  qed
qed

lemma init_priority_nonempty:
  assumes "init out file = Inr s"
  shows "priority_patterns s \<noteq> []"
proof -
  have "fst ` set (priority_patterns s) \<noteq> {}"
    by (simp add: init_keys [OF assms] valid_priorities_def)
  then show ?thesis by auto
qed

lemma init_distinct_keys:
  assumes "init out file = Inr s"
  shows "distinct (dict_keys (category_patterns s))"
    and "distinct (dict_keys (priority_patterns s))"
proof -
  show "distinct (dict_keys (category_patterns s))"
  proof (cases "training_data s = []")
    case True
    with init_no_samples [OF assms True] show ?thesis
      by (simp add: default_category_patterns_def dict_keys_def)
  next
    case False
    with init_tables [OF assms False] show ?thesis by (simp add: dict_keys_def spec_patterns_keys)
  qed
  show "distinct (dict_keys (priority_patterns s))"
  proof (cases "training_data s = []")
    case True
    with init_no_samples [OF assms True] show ?thesis
      by (simp add: default_priority_patterns_def dict_keys_def)
  next
    case False
    with init_tables [OF assms False] show ?thesis by (simp add: dict_keys_def spec_patterns_keys)
  qed
qed

lemma classify_init_labels:
  assumes init: "init out file = Inr s"
  shows "\<exists>c p. classify_user_query s q = Inr (c, p)
     \<and> c \<in> set valid_categories \<union> fst ` set (category_patterns s)
     \<and> p \<in> set valid_priorities \<union> fst ` set (priority_patterns s)"
proof (cases "rule_based_classification (lower q) (extract_words q)")
  case (Some r)
  obtain c p where r: "r = (c, p)" by (cases r)
  from Some r rule_results_valid [of "lower q" "extract_words q" c p]
  have "c \<in> set valid_categories \<and> p \<in> set valid_priorities" by simp
  with classify_rule_hit [OF Some, of s] r show ?thesis by simp
next
  case None
  let ?ws = "extract_words q"
  define cs where
    "cs = apply_context_rules (lower q) ?ws (score_categories (category_patterns s) ?ws)"
  define c where "c = spec_category cs"
  define ps where
    "ps = apply_priority_context (lower q) ?ws c (score_priorities (priority_patterns s) ?ws)"
  have "fst ` set cs \<subseteq> fst ` set (category_patterns s) \<union> set valid_categories"
    unfolding cs_def
    using apply_context_rules_keys [of "lower q" ?ws "score_categories (category_patterns s) ?ws"]
    by (simp add: score_categories_keys)
  with spec_category_keys [of cs]
  have c_ok: "c \<in> set valid_categories \<union> fst ` set (category_patterns s)"
    unfolding c_def by (auto simp: valid_categories_def)
  have "fst ` set ps \<subseteq> fst ` set (priority_patterns s) \<union> set valid_priorities"
    unfolding ps_def
    using apply_priority_context_keys
      [of "lower q" ?ws c "score_priorities (priority_patterns s) ?ws"]
    by (simp add: score_priorities_keys)
  with spec_priority_keys [of ps]
  have p_ok: "spec_priority ps \<in> set valid_priorities \<union> fst ` set (priority_patterns s)"
    by (auto simp: valid_priorities_def)
  have ne: "ps \<noteq> []"
    unfolding ps_def
    by (intro apply_priority_context_nonempty score_priorities_nonempty
        init_priority_nonempty [OF init])
  from classify_scoring_spec [OF None, of s]
  have "classify_user_query s q = Inr (c, spec_priority ps)"
    using ne by (simp add: Let_def cs_def [symmetric] c_def [symmetric] ps_def [symmetric])
  with c_ok p_ok show ?thesis by blast
qed

lemma valid_corpus_keys:
  assumes "init out file = Inr s"
    and "\<forall>item \<in> set (training_data s).
             category item \<in> set valid_categories \<and> priority item \<in> set valid_priorities"
  shows "fst ` set (category_patterns s) \<subseteq> set valid_categories"
    and "fst ` set (priority_patterns s) \<subseteq> set valid_priorities"
  using assms(2) by (auto simp: init_keys [OF assms(1)])




end
